theory Spec2Isabelle
  imports Main
begin

section \<open>Proximity competition: travel times and closest locations\<close>

text \<open>
  A shallow embedding of \<^verbatim>\<open>time_to_destinations\<close> and
  \<^verbatim>\<open>get_closest_locations\<close> of \<^verbatim>\<open>companalysis.py\<close>.

  Travel times are the integer seconds of the directions API, kept as \<open>int\<close>;
  names and addresses are strings; row and column positions are \<open>nat\<close>.
  Every \<^verbatim>\<open>raise\<close> of the source, and every exception raised by an expression
  the source evaluates, is a value \<open>Inl e\<close>.
\<close>

subsection \<open>Data\<close>

datatype error =
    TypeError string
  | ValueError string
  | Exception string
  | LookupError
  | IndexError
  | UnboundLocalError

text \<open>
  A \<^verbatim>\<open>pd.DataFrame\<close>: the n-by-m table of values with its row labels
  (\<^verbatim>\<open>index\<close>) and column labels (\<^verbatim>\<open>columns\<close>).
\<close>

record dataframe =
  df_values :: "int list list"
  df_columns :: "string list"
  df_index :: "string list"

text \<open>The table is rectangular: \<open>n\<close> rows of \<open>m\<close> cells each.\<close>

definition shape :: "int list list \<Rightarrow> nat \<Rightarrow> nat \<Rightarrow> bool" where
  "shape vals n m = (length vals = n \<and> list_all (\<lambda>row. length row = m) vals)"

subsection \<open>The assignment computation of \<^verbatim>\<open>get_closest_locations\<close>\<close>

text \<open>\<^verbatim>\<open>is_within_time = times_df.values < max_time\<close>, cell by cell.\<close>

definition is_within_time :: "int list list \<Rightarrow> int \<Rightarrow> bool list list" where
  "is_within_time vals max_time = map (map (\<lambda>v. v < max_time)) vals"

text \<open>
  \<^verbatim>\<open>np.nonzero\<close> of a two-dimensional boolean array: the positions of the true
  cells in row-major order. \<^verbatim>\<open>i_arr\<close> is the list of their rows and
  \<^verbatim>\<open>j_arr\<close> the list of their columns.
\<close>

definition nonzero :: "bool list list \<Rightarrow> (nat \<times> nat) list" where
  "nonzero b =
     concat (map (\<lambda>i. map (Pair i) (filter (\<lambda>j. b ! i ! j) [0..<length (b ! i)]))
                 [0..<length b])"

text \<open>\<^verbatim>\<open>same_loc = i_arr[j_arr == k]\<close>.\<close>

definition same_loc :: "nat list \<Rightarrow> nat list \<Rightarrow> nat \<Rightarrow> nat list" where
  "same_loc i_arr j_arr k = map fst (filter (\<lambda>p. snd p = k) (zip i_arr j_arr))"

text \<open>
  \<^verbatim>\<open>times_df.iloc[loc, k] < closest_dist\<close>, where \<^verbatim>\<open>closest_dist\<close> starts as
  \<^verbatim>\<open>np.inf\<close> (\<open>None\<close>) and is a travel time afterwards.
\<close>

fun less_dist :: "int \<Rightarrow> int option \<Rightarrow> bool" where
  "less_dist v None = True"
| "less_dist v (Some d) = (v < d)"

text \<open>
  The inner loop \<^verbatim>\<open>for loc in same_loc\<close>, on the pair
  (\<^verbatim>\<open>closest_dist\<close>, \<^verbatim>\<open>closest_loc\<close>). \<^verbatim>\<open>closest_loc\<close> is \<open>None\<close> while the
  variable is unbound.
\<close>

fun closest_scan ::
  "int list list \<Rightarrow> nat \<Rightarrow> nat list \<Rightarrow> int option \<times> nat option \<Rightarrow> int option \<times> nat option"
where
  "closest_scan vals k [] st = st"
| "closest_scan vals k (loc # locs) (closest_dist, closest_loc) =
     (if less_dist (vals ! loc ! k) closest_dist
      then closest_scan vals k locs (Some (vals ! loc ! k), Some loc)
      else closest_scan vals k locs (closest_dist, closest_loc))"

text \<open>
  The outer loop \<^verbatim>\<open>for k in j_arr\<close>. \<^verbatim>\<open>closest_dist\<close> is reset to
  \<^verbatim>\<open>np.inf\<close> in every round; \<^verbatim>\<open>closest_loc\<close> is not reset, so it is carried from
  one round to the next. Appending an unbound \<^verbatim>\<open>closest_loc\<close> raises.
\<close>

fun pair_loop ::
  "int list list \<Rightarrow> nat list \<Rightarrow> nat list \<Rightarrow> nat list \<Rightarrow> nat option \<Rightarrow>
   nat list \<times> nat list \<Rightarrow> error + (nat list \<times> nat list)"
where
  "pair_loop vals i_arr j_arr [] closest_loc acc = Inr acc"
| "pair_loop vals i_arr j_arr (k # ks) closest_loc (new_i_list, new_j_list) =
     (case snd (closest_scan vals k (same_loc i_arr j_arr k) (None, closest_loc)) of
        None \<Rightarrow> Inl UnboundLocalError
      | Some c \<Rightarrow> pair_loop vals i_arr j_arr ks (Some c) (new_i_list @ [c], new_j_list @ [k]))"

text \<open>
  \<^verbatim>\<open>np.argsort\<close> is library code outside the sources. Called as in line 498, with
  its default kind, it returns the positions \<open>0..<length ks\<close> sorted by their key and
  does not fix the order of positions with equal keys. \<open>argsort\<close> is one such result,
  the one that leaves equal keys in index order. No statement made for a claim depends
  on the order among equal keys: each speaks of the set of records, of their number,
  of the records of one column (which are equal), or of the loop before the sort.
\<close>

definition argsort :: "nat list \<Rightarrow> nat list" where
  "argsort ks = sort_key (\<lambda>p. ks ! p) [0..<length ks]"

text \<open>
  Lines 476 to 502: from the table and the threshold to \<^verbatim>\<open>comb_arr\<close>, the list of
  (origin row, destination column) pairs in output order.
\<close>

definition comb_arr :: "int list list \<Rightarrow> int \<Rightarrow> error + (nat \<times> nat) list" where
  "comb_arr vals max_time =
     (let cells = nonzero (is_within_time vals max_time);
          i_arr = map fst cells;
          j_arr = map snd cells
      in case pair_loop vals i_arr j_arr j_arr None ([], []) of
           Inl e \<Rightarrow> Inl e
         | Inr (new_i_list, new_j_list) \<Rightarrow>
             (let sort_mask = argsort new_i_list;
                  new_i_arr = map (\<lambda>p. new_i_list ! p) sort_mask;
                  new_j_arr = map (\<lambda>p. new_j_list ! p) sort_mask
              in Inr (zip new_i_arr new_j_arr)))"

text \<open>The f-string of lines 508 to 511.\<close>

definition output_string :: "string \<Rightarrow> string \<Rightarrow> string \<Rightarrow> string \<Rightarrow> string" where
  "output_string origin_name origin_address destination_name destination_address =
     ''Origin Name: '' @ origin_name @ [CHR 10] @
     ''Origin Address: '' @ origin_address @ [CHR 10] @
     ''Destination Name: '' @ destination_name @ [CHR 10] @
     ''Destination Address: '' @ destination_address @ [CHR 10]"

text \<open>
  The loop \<^verbatim>\<open>for i, j in comb_arr\<close>: an index beyond the end of one of the four
  lists raises \<^verbatim>\<open>IndexError\<close> and nothing is returned.
\<close>

fun report_loop ::
  "string list \<Rightarrow> string list \<Rightarrow> string list \<Rightarrow> string list \<Rightarrow>
   (nat \<times> nat) list \<Rightarrow> string list \<Rightarrow> error + string list"
where
  "report_loop origin_addresses origin_names destination_addresses destination_names
     [] closest_locations = Inr closest_locations"
| "report_loop origin_addresses origin_names destination_addresses destination_names
     ((i, j) # rest) closest_locations =
     (if i < length origin_names \<and> i < length origin_addresses \<and>
         j < length destination_names \<and> j < length destination_addresses
      then report_loop origin_addresses origin_names destination_addresses destination_names
             rest
             (closest_locations @
                [output_string (origin_names ! i) (origin_addresses ! i)
                   (destination_names ! j) (destination_addresses ! j)])
      else Inl IndexError)"

text \<open>Lines 476 to 515: everything after \<^verbatim>\<open>times_df\<close> is in hand.\<close>

definition closest_from ::
  "string list \<Rightarrow> string list \<Rightarrow> string list \<Rightarrow> string list \<Rightarrow> int \<Rightarrow> dataframe \<Rightarrow>
   error + (dataframe \<times> string list)"
where
  "closest_from origin_addresses origin_names destination_addresses destination_names
     max_time times_df =
     (case comb_arr (df_values times_df) max_time of
        Inl e \<Rightarrow> Inl e
      | Inr pairs \<Rightarrow>
          (case report_loop origin_addresses origin_names destination_addresses
                  destination_names pairs [] of
             Inl e \<Rightarrow> Inl e
           | Inr closest_locations \<Rightarrow> Inr (times_df, closest_locations)))"

subsection \<open>The travel-time provider \<^verbatim>\<open>time_to_destinations\<close>\<close>

text \<open>
  The query parameters of one directions request, and what the function reads of the
  answer: \<^verbatim>\<open>response.status_code\<close>, \<^verbatim>\<open>data["status"]\<close> and
  \<^verbatim>\<open>data["routes"][0]["legs"][0]["duration"]["value"]\<close> (\<open>None\<close> when the JSON
  has no such entry, so that reading it raises). The body of an answer with status code
  200 is taken to be JSON with a \<^verbatim>\<open>status\<close> entry, as the service sends it.
\<close>

record params =
  p_origin :: string
  p_destination :: string
  p_departure_time :: string
  p_key :: string

record response =
  status_code :: nat
  api_status :: string
  duration_value :: "int option"

text \<open>
  What the function has done so far: the array \<^verbatim>\<open>times_arr\<close>, the requests sent
  (in order) and the warnings printed (in order).
\<close>

record run =
  times_arr :: "int list list"
  requests :: "params list"
  printed :: "string list"

text \<open>\<^verbatim>\<open>str\<close> of a status code.\<close>

fun str_nat :: "nat \<Rightarrow> string" where
  "str_nat n =
     (if n < 10 then [''0123456789'' ! n]
      else str_nat (n div 10) @ [''0123456789'' ! (n mod 10)])"

declare str_nat.simps [simp del]

definition no_route_message :: "string \<Rightarrow> string \<Rightarrow> string" where
  "no_route_message dest status =
     ''No valid route for '' @ dest @ ''. '' @ [CHR 10] @ ''Status: '' @ status"

definition api_error_message :: "nat \<Rightarrow> string" where
  "api_error_message code = ''Google Maps API error: '' @ str_nat code"

text \<open>
  The inner loop \<^verbatim>\<open>for j, destination in enumerate(destination_addresses)\<close> of row
  \<open>i\<close>. \<open>get j\<close> is the answer of the service to the request for the pair
  \<open>(i, j)\<close>; each pair is requested at most once. The loop stops at the first
  exception, which is returned with the state reached.
\<close>

fun destination_loop ::
  "(nat \<Rightarrow> response) \<Rightarrow> string \<Rightarrow> string \<Rightarrow> string \<Rightarrow> nat \<Rightarrow> nat \<Rightarrow> string list \<Rightarrow> run \<Rightarrow>
   error option \<times> run"
where
  "destination_loop get orig departure apikey i j [] st = (None, st)"
| "destination_loop get orig departure apikey i j (dest # rest) st =
     (let st1 = st\<lparr>requests := requests st @
                   [\<lparr>p_origin = orig, p_destination = dest,
                     p_departure_time = departure, p_key = apikey\<rparr>]\<rparr>
      in if status_code (get j) = 200 then
           if api_status (get j) = ''OK'' then
             (case duration_value (get j) of
                None \<Rightarrow> (Some LookupError, st1)
              | Some duration_seconds \<Rightarrow>
                  destination_loop get orig departure apikey i (Suc j) rest
                    (st1\<lparr>times_arr :=
                       (times_arr st1)[i := (times_arr st1 ! i)[j := duration_seconds]]\<rparr>))
           else destination_loop get orig departure apikey i (Suc j) rest
                  (st1\<lparr>printed := printed st1 @
                     [no_route_message dest (api_status (get j))]\<rparr>)
         else (Some (Exception (api_error_message (status_code (get j)))), st1))"

text \<open>
  The outer loop \<^verbatim>\<open>for i, origin in enumerate(origin_addresses)\<close>.
  \<open>clock i\<close> is \<^verbatim>\<open>str(get_next_2am_unix_timestamp())\<close> as computed in round \<open>i\<close>.
\<close>

fun origin_loop ::
  "(nat \<Rightarrow> string) \<Rightarrow> (nat \<Rightarrow> nat \<Rightarrow> response) \<Rightarrow> string \<Rightarrow> string list \<Rightarrow> nat \<Rightarrow> string list \<Rightarrow>
   run \<Rightarrow> error option \<times> run"
where
  "origin_loop clock get apikey dests i [] st = (None, st)"
| "origin_loop clock get apikey dests i (orig # rest) st =
     (case destination_loop (get i) orig (clock i) apikey i 0 dests st of
        (Some e, st') \<Rightarrow> (Some e, st')
      | (None, st') \<Rightarrow> origin_loop clock get apikey dests (Suc i) rest st')"

definition names_mismatch_message :: string where
  "names_mismatch_message =
     ''The number of origin and destination names must match the number of addresses.''"

definition apikey_required_message :: string where
  "apikey_required_message =
     ''A Google Maps API key is required to calculate the travel times.''"

text \<open>
  \<^verbatim>\<open>time_to_destinations\<close> on four Python lists of strings, as
  \<^verbatim>\<open>get_closest_locations\<close> declares its arguments: the \<^verbatim>\<open>type(...)\<close> tests of
  lines 379 to 402 all pass on lists, and the first check that can fail is the one of
  line 403. \<^verbatim>\<open>times_arr\<close> starts as \<^verbatim>\<open>np.zeros((n, m))\<close>, and the loops write
  only cells \<open>(i, j)\<close> with \<open>i < n\<close> and \<open>j < m\<close>. The result comes with the
  requests sent and the warnings printed.
\<close>

definition time_to_destinations ::
  "(nat \<Rightarrow> string) \<Rightarrow> (nat \<Rightarrow> nat \<Rightarrow> response) \<Rightarrow>
   string list \<Rightarrow> string list \<Rightarrow> string list \<Rightarrow> string list \<Rightarrow> string \<Rightarrow>
   (error + dataframe) \<times> params list \<times> string list"
where
  "time_to_destinations clock get origin_addresses origin_names destination_addresses
     destination_names apikey =
     (let n = length origin_addresses;
          m = length destination_addresses;
          st0 = \<lparr>times_arr = replicate n (replicate m 0), requests = [], printed = []\<rparr>
      in if length origin_names \<noteq> n \<or> length destination_names \<noteq> m
         then (Inl (ValueError names_mismatch_message), [], [])
         else if apikey = []
         then (Inl (ValueError apikey_required_message), [], [])
         else (case origin_loop clock get apikey destination_addresses 0 origin_addresses st0 of
                 (Some e, st) \<Rightarrow> (Inl e, requests st, printed st)
               | (None, st) \<Rightarrow>
                   (Inr \<lparr>df_values = times_arr st, df_columns = destination_names,
                         df_index = origin_names\<rparr>,
                    requests st, printed st)))"

subsection \<open>\<^verbatim>\<open>get_closest_locations\<close>\<close>

text \<open>
  \<^verbatim>\<open>bool(df)\<close> of a pandas DataFrame raises \<^verbatim>\<open>ValueError\<close> whatever the table
  holds, and so does \<^verbatim>\<open>not df\<close>; \<^verbatim>\<open>not None\<close> is true.
\<close>

definition ambiguous_truth_message :: string where
  "ambiguous_truth_message =
     ''The truth value of a DataFrame is ambiguous. Use a.empty, a.bool(), a.item(), a.any() or a.all().''"

fun not_times_df :: "dataframe option \<Rightarrow> error + bool" where
  "not_times_df None = Inr True"
| "not_times_df (Some df) = Inl (ValueError ambiguous_truth_message)"

text \<open>\<^verbatim>\<open>not apikey\<close>: true of \<^verbatim>\<open>None\<close> and of the empty string.\<close>

fun not_apikey :: "string option \<Rightarrow> bool" where
  "not_apikey None = True"
| "not_apikey (Some k) = (k = [])"

text \<open>
  The whole function. Line 470 evaluates \<^verbatim>\<open>not times_df\<close> first and
  \<^verbatim>\<open>not apikey\<close> only when that is true; line 473 evaluates \<^verbatim>\<open>not times_df\<close>
  again. Past line 471 with no table, \<^verbatim>\<open>apikey\<close> is a non-empty string, and
  past line 473 \<^verbatim>\<open>times_df\<close> is a table: the two default branches below are
  never taken. The requests and warnings of \<^verbatim>\<open>time_to_destinations\<close> are not
  part of the result.
\<close>

definition get_closest_locations ::
  "(nat \<Rightarrow> string) \<Rightarrow> (nat \<Rightarrow> nat \<Rightarrow> response) \<Rightarrow>
   string list \<Rightarrow> string list \<Rightarrow> string list \<Rightarrow> string list \<Rightarrow> int \<Rightarrow>
   dataframe option \<Rightarrow> string option \<Rightarrow> error + (dataframe \<times> string list)"
where
  "get_closest_locations clock get origin_addresses origin_names destination_addresses
     destination_names max_time times_df apikey =
     (case not_times_df times_df of
        Inl e \<Rightarrow> Inl e
      | Inr no_table \<Rightarrow>
          if no_table \<and> not_apikey apikey
          then Inl (ValueError apikey_required_message)
          else (case not_times_df times_df of
                  Inl e \<Rightarrow> Inl e
                | Inr no_table' \<Rightarrow>
                    (case (if no_table'
                           then fst (time_to_destinations clock get origin_addresses
                                       origin_names destination_addresses destination_names
                                       (case apikey of Some k \<Rightarrow> k | None \<Rightarrow> []))
                           else (case times_df of
                                   Some df \<Rightarrow> Inr df
                                 | None \<Rightarrow> Inl UnboundLocalError)) of
                       Inl e \<Rightarrow> Inl e
                     | Inr df \<Rightarrow>
                         closest_from origin_addresses origin_names destination_addresses
                           destination_names max_time df)))"

section \<open>Notions used to state the properties\<close>

subsection \<open>Eligible cells and the closest origin of a destination\<close>

text \<open>
  Cell \<open>(i, j)\<close> of the table is eligible when it exists and its travel time is
  strictly below the threshold.
\<close>

definition eligible :: "int list list \<Rightarrow> int \<Rightarrow> nat \<Rightarrow> nat \<Rightarrow> bool" where
  "eligible vals max_time i j = (i < length vals \<and> j < length (vals ! i) \<and> vals ! i ! j < max_time)"

text \<open>The eligible rows of column \<open>j\<close>, in ascending order.\<close>

definition eligible_rows :: "int list list \<Rightarrow> int \<Rightarrow> nat \<Rightarrow> nat list" where
  "eligible_rows vals max_time j = filter (\<lambda>i. eligible vals max_time i j) [0..<length vals]"

text \<open>The eligible cells in row-major order.\<close>

definition eligible_cells :: "int list list \<Rightarrow> int \<Rightarrow> (nat \<times> nat) list" where
  "eligible_cells vals max_time =
     concat (map (\<lambda>i. map (Pair i) (filter (\<lambda>j. vals ! i ! j < max_time) [0..<length (vals ! i)]))
              [0..<length vals])"

text \<open>The number of cells of the table whose value is strictly below the threshold.\<close>

definition count_below :: "int list list \<Rightarrow> int \<Rightarrow> nat" where
  "count_below vals max_time = sum_list (map (\<lambda>row. length (filter (\<lambda>v. v < max_time) row)) vals)"

text \<open>
  Row \<open>i\<close> is the closest origin of column \<open>j\<close>: it is eligible, no eligible row of
  the column has a smaller travel time, and no eligible row with the same travel time
  has a lower index.
\<close>

definition is_closest :: "int list list \<Rightarrow> int \<Rightarrow> nat \<Rightarrow> nat \<Rightarrow> bool" where
  "is_closest vals max_time i j =
     (eligible vals max_time i j \<and>
      list_all (\<lambda>i'. eligible vals max_time i' j \<longrightarrow>
                  vals ! i ! j \<le> vals ! i' ! j \<and> (vals ! i' ! j = vals ! i ! j \<longrightarrow> i \<le> i'))
        [0..<length vals])"

text \<open>What the inner loop selects for column \<open>k\<close> when it runs over the eligible rows.\<close>

definition selected :: "int list list \<Rightarrow> int \<Rightarrow> nat \<Rightarrow> nat option" where
  "selected vals max_time k = snd (closest_scan vals k (eligible_rows vals max_time k) (None, None))"

definition winner :: "int list list \<Rightarrow> int \<Rightarrow> nat \<Rightarrow> nat" where
  "winner vals max_time k = (case selected vals max_time k of Some c \<Rightarrow> c | None \<Rightarrow> 0)"

text \<open>
  The pairs in the order the outer loop appends them: one pair per eligible cell, in
  row-major order of the cells, each holding the winner of the cell's column.
\<close>

definition scan_pairs :: "int list list \<Rightarrow> int \<Rightarrow> (nat \<times> nat) list" where
  "scan_pairs vals max_time =
     map (\<lambda>c. (winner vals max_time (snd c), snd c)) (eligible_cells vals max_time)"

text \<open>A list of pairs put in the order of \<open>argsort\<close> on the first components.\<close>

definition reorder :: "(nat \<times> nat) list \<Rightarrow> (nat \<times> nat) list" where
  "reorder sp = map (\<lambda>p. sp ! p) (sort_key (\<lambda>p. fst (sp ! p)) [0..<length sp])"

text \<open>The destination columns of the pairs of origin \<open>i\<close>, in list order.\<close>

definition destinations_of :: "nat \<Rightarrow> (nat \<times> nat) list \<Rightarrow> nat list" where
  "destinations_of i pairs = map snd (filter (\<lambda>r. fst r = i) pairs)"

text \<open>The report string of the pair \<open>r\<close>.\<close>

definition block_of ::
  "string list \<Rightarrow> string list \<Rightarrow> string list \<Rightarrow> string list \<Rightarrow> nat \<times> nat \<Rightarrow> string" where
  "block_of origin_addresses origin_names destination_addresses destination_names r =
     output_string (origin_names ! fst r) (origin_addresses ! fst r)
       (destination_names ! snd r) (destination_addresses ! snd r)"

subsection \<open>Answers of the directions service\<close>

text \<open>
  An answer the loop gets past: the transport succeeded, and a route reported as
  \<^verbatim>\<open>OK\<close> carries its duration.
\<close>

definition answered :: "response \<Rightarrow> bool" where
  "answered r = (status_code r = 200 \<and> (api_status r = ''OK'' \<longrightarrow> duration_value r \<noteq> None))"

text \<open>The value a cell should hold after such an answer: the duration, or 0 without a route.\<close>

definition expected_cell :: "response \<Rightarrow> int" where
  "expected_cell r =
     (if api_status r = ''OK'' then (case duration_value r of Some v \<Rightarrow> v | None \<Rightarrow> 0) else 0)"

text \<open>The warnings of one row, and of the first \<open>n\<close> rows, in request order.\<close>

definition row_warnings :: "(nat \<Rightarrow> response) \<Rightarrow> nat \<Rightarrow> string list \<Rightarrow> string list" where
  "row_warnings g j dests =
     map (\<lambda>(j', dest). no_route_message dest (api_status (g j')))
       (filter (\<lambda>(j', dest). api_status (g j') \<noteq> ''OK'') (enumerate j dests))"

definition all_warnings :: "(nat \<Rightarrow> nat \<Rightarrow> response) \<Rightarrow> nat \<Rightarrow> string list \<Rightarrow> string list" where
  "all_warnings get n dests = concat (map (\<lambda>i. row_warnings (get i) 0 dests) [0..<n])"

subsection \<open>Reading a report block back\<close>

text \<open>
  Modelled from the spec: the sources have no reader for the report; the specification
  speaks of a trivial line splitter. \<open>split_lines\<close> cuts a string at every line feed
  (a final line feed ends the last line and opens no new one).
\<close>

fun split_lines :: "string \<Rightarrow> string list" where
  "split_lines [] = []"
| "split_lines (c # cs) =
     (if c = CHR 10 then [] # split_lines cs
      else (case split_lines cs of [] \<Rightarrow> [[c]] | l # ls \<Rightarrow> (c # l) # ls))"

definition strip_prefix :: "string \<Rightarrow> string \<Rightarrow> string option" where
  "strip_prefix p s = (if take (length p) s = p then Some (drop (length p) s) else None)"

text \<open>
  Modelled from the spec: the reader of one block. It expects exactly four lines with
  the four labels and returns the text after each label.
\<close>

definition parse_block :: "string \<Rightarrow> (string \<times> string \<times> string \<times> string) option" where
  "parse_block s =
     (case split_lines s of
        [l1, l2, l3, l4] \<Rightarrow>
          (case (strip_prefix ''Origin Name: '' l1, strip_prefix ''Origin Address: '' l2,
                 strip_prefix ''Destination Name: '' l3,
                 strip_prefix ''Destination Address: '' l4) of
             (Some a, Some b, Some c, Some d) \<Rightarrow> Some (a, b, c, d)
           | _ \<Rightarrow> None)
      | _ \<Rightarrow> None)"

subsection \<open>Example data\<close>

text \<open>
  The table of the specification's example, a table with a tie in its first column, and
  three directions services: one that answers every pair with the time of the example
  table, one that finds no route for the pair \<open>(1, 0)\<close>, and one whose transport
  fails for that pair.
\<close>

definition example_times :: "int list list" where
  "example_times = [[500, 900], [300, 300]]"

definition tie_times :: "int list list" where
  "tie_times = [[300, 900], [300, 300]]"

definition example_df :: dataframe where
  "example_df = \<lparr>df_values = example_times, df_columns = [''X'', ''Y''], df_index = [''A'', ''B'']\<rparr>"

definition example_get :: "nat \<Rightarrow> nat \<Rightarrow> response" where
  "example_get i j = \<lparr>status_code = 200, api_status = ''OK'',
                        duration_value = Some (example_times ! i ! j)\<rparr>"

definition no_route_get :: "nat \<Rightarrow> nat \<Rightarrow> response" where
  "no_route_get i j =
     (if i = 1 \<and> j = 0
      then \<lparr>status_code = 200, api_status = ''ZERO_RESULTS'', duration_value = None\<rparr>
      else example_get i j)"

definition failing_get :: "nat \<Rightarrow> nat \<Rightarrow> response" where
  "failing_get i j =
     (if i = 1 \<and> j = 0
      then \<lparr>status_code = 503, api_status = [], duration_value = None\<rparr>
      else example_get i j)"

definition example_clock :: "nat \<Rightarrow> string" where
  "example_clock i = ''1762250400''"

section \<open>Lemmas\<close>

lemma nonzero_is_within_time:
  "nonzero (is_within_time vals max_time) = eligible_cells vals max_time"
proof -
  have len: "length (is_within_time vals max_time) = length vals"
    by (simp add: is_within_time_def)
  have "map (\<lambda>i. map (Pair i) (filter (\<lambda>j. is_within_time vals max_time ! i ! j)
                 [0..<length (is_within_time vals max_time ! i)])) [0..<length vals]
      = map (\<lambda>i. map (Pair i) (filter (\<lambda>j. vals ! i ! j < max_time) [0..<length (vals ! i)]))
                 [0..<length vals]"
  proof (rule map_cong[OF refl])
    fix i assume "i \<in> set [0..<length vals]"
    then have i: "i < length vals" by simp
    have row: "is_within_time vals max_time ! i = map (\<lambda>v. v < max_time) (vals ! i)"
      using i by (simp add: is_within_time_def)
    have "filter (\<lambda>j. is_within_time vals max_time ! i ! j) [0..<length (vals ! i)]
        = filter (\<lambda>j. vals ! i ! j < max_time) [0..<length (vals ! i)]"
      by (rule filter_cong[OF refl]) (simp add: row)
    then show "map (Pair i) (filter (\<lambda>j. is_within_time vals max_time ! i ! j)
                 [0..<length (is_within_time vals max_time ! i)])
       = map (Pair i) (filter (\<lambda>j. vals ! i ! j < max_time) [0..<length (vals ! i)])"
      by (simp add: row)
  qed
  then show ?thesis
    unfolding nonzero_def eligible_cells_def len by (rule arg_cong)
qed

lemma filter_eq_distinct:
  "distinct xs \<Longrightarrow> filter (\<lambda>j. j = k) xs = (if k \<in> set xs then [k] else [])"
  by (induction xs) auto

lemma column_of_rows:
  assumes "\<And>i. distinct (J i)"
  shows "map fst (filter (\<lambda>p. snd p = k) (concat (map (\<lambda>i. map (Pair i) (J i)) rows)))
       = filter (\<lambda>i. k \<in> set (J i)) rows"
proof (induction rows)
  case Nil
  show ?case by simp
next
  case (Cons r rows)
  have "filter (\<lambda>p. snd p = k) (map (Pair r) (J r)) = map (Pair r) (filter (\<lambda>j. j = k) (J r))"
    by (simp add: filter_map comp_def)
  then have "map fst (filter (\<lambda>p. snd p = k) (map (Pair r) (J r))) = (if k \<in> set (J r) then [r] else [])"
    by (simp add: filter_eq_distinct[OF assms])
  with Cons show ?case by simp
qed

lemma same_loc_cells:
  "same_loc (map fst (eligible_cells vals max_time)) (map snd (eligible_cells vals max_time)) k
     = eligible_rows vals max_time k"
proof -
  have "map fst (filter (\<lambda>p. snd p = k) (eligible_cells vals max_time))
      = filter (\<lambda>i. k \<in> set (filter (\<lambda>j. vals ! i ! j < max_time) [0..<length (vals ! i)]))
          [0..<length vals]"
    unfolding eligible_cells_def by (rule column_of_rows) simp
  also have "\<dots> = eligible_rows vals max_time k"
    unfolding eligible_rows_def by (rule filter_cong[OF refl]) (auto simp: eligible_def)
  finally show ?thesis by (simp add: same_loc_def zip_map_fst_snd)
qed

lemma eligible_cells_iff:
  "(i, j) \<in> set (eligible_cells vals max_time) \<longleftrightarrow> eligible vals max_time i j"
  by (auto simp: eligible_cells_def eligible_def)

lemma eligible_rows_iff:
  "i \<in> set (eligible_rows vals max_time j) \<longleftrightarrow> eligible vals max_time i j"
  by (auto simp: eligible_rows_def eligible_def)

lemma closest_scan_bound:
  assumes "sorted_wrt (<) (c # locs)"
  shows "\<exists>c'. closest_scan vals k locs (Some (vals ! c ! k), Some c) = (Some (vals ! c' ! k), Some c')
            \<and> c' \<in> insert c (set locs)
            \<and> (\<forall>l \<in> insert c (set locs). vals ! c' ! k \<le> vals ! l ! k
                   \<and> (vals ! l ! k = vals ! c' ! k \<longrightarrow> c' \<le> l))"
  using assms
proof (induction locs arbitrary: c)
  case Nil
  show ?case by simp
next
  case (Cons l ls)
  show ?case
  proof (cases "vals ! l ! k < vals ! c ! k")
    case True
    from Cons.prems have "sorted_wrt (<) (l # ls)" by simp
    from Cons.IH[OF this] obtain c' where
      run: "closest_scan vals k ls (Some (vals ! l ! k), Some l) = (Some (vals ! c' ! k), Some c')"
      and mem: "c' \<in> insert l (set ls)"
      and best: "\<forall>x \<in> insert l (set ls). vals ! c' ! k \<le> vals ! x ! k
                   \<and> (vals ! x ! k = vals ! c' ! k \<longrightarrow> c' \<le> x)"
      by blast
    from best have "vals ! c' ! k \<le> vals ! l ! k" by simp
    with True have "vals ! c' ! k < vals ! c ! k" by simp
    with run mem best True show ?thesis by auto
  next
    case False
    from Cons.prems have "sorted_wrt (<) (c # ls)" and "c < l" by auto
    from Cons.IH[OF this(1)] obtain c' where
      run: "closest_scan vals k ls (Some (vals ! c ! k), Some c) = (Some (vals ! c' ! k), Some c')"
      and mem: "c' \<in> insert c (set ls)"
      and best: "\<forall>x \<in> insert c (set ls). vals ! c' ! k \<le> vals ! x ! k
                   \<and> (vals ! x ! k = vals ! c' ! k \<longrightarrow> c' \<le> x)"
      by blast
    from best have le: "vals ! c' ! k \<le> vals ! c ! k"
      and tie: "vals ! c ! k = vals ! c' ! k \<longrightarrow> c' \<le> c" by simp_all
    from le False have "vals ! c' ! k \<le> vals ! l ! k" by simp
    moreover have "vals ! l ! k = vals ! c' ! k \<longrightarrow> c' \<le> l"
      using le False tie \<open>c < l\<close> by auto
    ultimately show ?thesis using run mem best False by auto
  qed
qed

lemma closest_scan_first:
  assumes "locs \<noteq> []" and "sorted_wrt (<) locs"
  shows "\<exists>c'. snd (closest_scan vals k locs (None, cl)) = Some c'
            \<and> c' \<in> set locs
            \<and> (\<forall>l \<in> set locs. vals ! c' ! k \<le> vals ! l ! k
                   \<and> (vals ! l ! k = vals ! c' ! k \<longrightarrow> c' \<le> l))"
proof -
  from assms(1) obtain l ls where locs: "locs = l # ls" by (cases locs) auto
  from closest_scan_bound[of l ls vals k] assms(2) locs
  show ?thesis by auto
qed

lemma closest_scan_carry:
  "locs \<noteq> [] \<Longrightarrow> closest_scan vals k locs (None, cl) = closest_scan vals k locs (None, None)"
  by (cases locs) auto

lemma sorted_eligible_rows: "sorted_wrt (<) (eligible_rows vals max_time j)"
  unfolding eligible_rows_def by (rule sorted_wrt_filter) simp

lemma selected_is_closest:
  assumes "eligible_rows vals max_time j \<noteq> []"
  shows "\<exists>c. selected vals max_time j = Some c \<and> is_closest vals max_time c j"
proof -
  from closest_scan_first[OF assms sorted_eligible_rows, of vals j None]
  obtain c where sel: "selected vals max_time j = Some c"
    and mem: "c \<in> set (eligible_rows vals max_time j)"
    and best: "\<forall>l \<in> set (eligible_rows vals max_time j). vals ! c ! j \<le> vals ! l ! j
                   \<and> (vals ! l ! j = vals ! c ! j \<longrightarrow> c \<le> l)"
    unfolding selected_def by blast
  have "is_closest vals max_time c j"
    using mem best by (auto simp: is_closest_def list_all_iff eligible_rows_iff)
  with sel show ?thesis by blast
qed

lemma winner_is_closest:
  "eligible_rows vals max_time j \<noteq> [] \<Longrightarrow> is_closest vals max_time (winner vals max_time j) j"
  using selected_is_closest[of vals max_time j] by (auto simp: winner_def)

lemma is_closest_unique:
  "is_closest vals max_time i j \<Longrightarrow> is_closest vals max_time i' j \<Longrightarrow> i = i'"
  by (fastforce simp: is_closest_def list_all_iff eligible_def)

lemma pair_loop_eq:
  assumes "\<And>k. same_loc i_arr j_arr k = eligible_rows vals max_time k"
    and "\<forall>k \<in> set ks. eligible_rows vals max_time k \<noteq> []"
  shows "pair_loop vals i_arr j_arr ks cl (new_i_list, new_j_list)
       = Inr (new_i_list @ map (winner vals max_time) ks, new_j_list @ ks)"
  using assms(2)
proof (induction ks arbitrary: cl new_i_list new_j_list)
  case Nil
  show ?case by simp
next
  case (Cons k ks)
  from Cons.prems have ne: "eligible_rows vals max_time k \<noteq> []" by simp
  from selected_is_closest[OF ne] obtain c where c: "selected vals max_time k = Some c" by blast
  then have w: "winner vals max_time k = c" by (simp add: winner_def)
  have "snd (closest_scan vals k (same_loc i_arr j_arr k) (None, cl)) = Some c"
    using c closest_scan_carry[OF ne, of vals k cl] by (simp add: assms(1) selected_def)
  moreover from Cons.prems have "\<forall>k \<in> set ks. eligible_rows vals max_time k \<noteq> []" by simp
  ultimately show ?case using Cons.IH w by simp
qed

lemma eligible_rows_nonempty:
  "j \<in> set (map snd (eligible_cells vals max_time)) \<Longrightarrow> eligible_rows vals max_time j \<noteq> []"
proof -
  assume "j \<in> set (map snd (eligible_cells vals max_time))"
  then obtain i where "(i, j) \<in> set (eligible_cells vals max_time)" by auto
  then have "i \<in> set (eligible_rows vals max_time j)"
    by (simp add: eligible_cells_iff eligible_rows_iff)
  then show ?thesis by auto
qed

lemma insort_key_agree:
  "f x = g x \<Longrightarrow> \<forall>y \<in> set ys. f y = g y \<Longrightarrow> insort_key f x ys = insort_key g x ys"
  by (induction ys) auto

lemma sort_key_agree:
  "\<forall>x \<in> set xs. f x = g x \<Longrightarrow> sort_key f xs = sort_key g xs"
  by (induction xs) (auto intro: insort_key_agree)

lemma comb_arr_eq:
  "comb_arr vals max_time =
     Inr (map (\<lambda>p. scan_pairs vals max_time ! p)
            (sort_key (\<lambda>p. fst (scan_pairs vals max_time ! p))
               [0..<length (scan_pairs vals max_time)]))"
proof -
  let ?cells = "eligible_cells vals max_time"
  let ?sp = "scan_pairs vals max_time"
  let ?srt = "sort_key (\<lambda>p. fst (?sp ! p)) [0..<length ?sp]"
  have ni: "map (winner vals max_time) (map snd ?cells) = map fst ?sp"
    and nj: "map snd ?cells = map snd ?sp"
    by (simp_all add: scan_pairs_def comp_def)
  have "pair_loop vals (map fst ?cells) (map snd ?cells) (map snd ?cells) None ([], [])
      = Inr ([] @ map (winner vals max_time) (map snd ?cells), [] @ map snd ?cells)"
    by (rule pair_loop_eq) (use same_loc_cells eligible_rows_nonempty in blast)+
  then have loop:
    "pair_loop vals (map fst ?cells) (map snd ?cells) (map snd ?cells) None ([], [])
      = Inr (map fst ?sp, map snd ?sp)"
    using ni nj by simp
  have mask: "argsort (map fst ?sp) = ?srt"
    unfolding argsort_def length_map by (rule sort_key_agree) simp
  have "zip (map (\<lambda>p. map fst ?sp ! p) srt) (map (\<lambda>p. map snd ?sp ! p) srt)
      = map (\<lambda>p. ?sp ! p) srt"
    if "set srt \<subseteq> {0..<length ?sp}" for srt
    using that by (induction srt) auto
  from this[of ?srt]
  have z: "zip (map (\<lambda>p. map fst ?sp ! p) ?srt) (map (\<lambda>p. map snd ?sp ! p) ?srt)
      = map (\<lambda>p. ?sp ! p) ?srt"
    by simp
  have "comb_arr vals max_time
      = Inr (zip (map (\<lambda>p. map fst ?sp ! p) (argsort (map fst ?sp)))
                 (map (\<lambda>p. map snd ?sp ! p) (argsort (map fst ?sp))))"
    unfolding comb_arr_def Let_def nonzero_is_within_time loop by simp
  then show ?thesis unfolding mask z .
qed

lemma length_filter_nth:
  "length (filter (\<lambda>j. P (row ! j)) [0..<length row]) = length (filter P row)"
proof -
  have "filter P (map (\<lambda>j. row ! j) [0..<length row]) = filter P row"
    by (simp add: map_nth)
  then have "length (map (\<lambda>j. row ! j) (filter (\<lambda>j. P (row ! j)) [0..<length row])) = length (filter P row)"
    by (simp add: filter_map comp_def)
  then show ?thesis by simp
qed

lemma length_eligible_cells:
  "length (eligible_cells vals max_time) = count_below vals max_time"
proof -
  have "map (\<lambda>i. length (filter (\<lambda>j. vals ! i ! j < max_time) [0..<length (vals ! i)])) [0..<length vals]
      = map (\<lambda>i. length (filter (\<lambda>v. v < max_time) (vals ! i))) [0..<length vals]"
    by (simp add: length_filter_nth[where P="\<lambda>v. v < max_time"])
  also have "\<dots> = map (\<lambda>row. length (filter (\<lambda>v. v < max_time) row)) (map (\<lambda>i. vals ! i) [0..<length vals])"
    by (simp add: comp_def)
  finally show ?thesis
    by (simp add: eligible_cells_def count_below_def length_concat comp_def map_nth)
qed

lemma length_eligible_rows:
  "length (filter (\<lambda>c. snd c = j) (eligible_cells vals max_time)) = length (eligible_rows vals max_time j)"
proof -
  have "length (same_loc (map fst (eligible_cells vals max_time)) (map snd (eligible_cells vals max_time)) j)
      = length (filter (\<lambda>c. snd c = j) (eligible_cells vals max_time))"
    by (simp add: same_loc_def zip_map_fst_snd)
  then show ?thesis by (simp add: same_loc_cells)
qed

lemma set_reorder: "set (reorder sp) = set sp"
proof -
  have "set (reorder sp) = set (map (\<lambda>p. sp ! p) [0..<length sp])"
    unfolding reorder_def by simp
  then show ?thesis by (simp add: map_nth)
qed

lemma length_reorder: "length (reorder sp) = length sp"
  by (simp add: reorder_def)

lemma length_filter_reorder: "length (filter P (reorder sp)) = length (filter P sp)"
proof -
  have "length (filter P (reorder sp)) = length (filter P (map (\<lambda>p. sp ! p) [0..<length sp]))"
    unfolding reorder_def by (simp add: filter_map filter_sort)
  then show ?thesis by (simp add: map_nth)
qed

lemma sorted_reorder: "sorted (map fst (reorder sp))"
proof -
  have "map fst (reorder sp)
      = map (\<lambda>p. fst (sp ! p)) (sort_key (\<lambda>p. fst (sp ! p)) [0..<length sp])"
    by (simp add: reorder_def comp_def)
  then show ?thesis by (simp add: sorted_sort_key)
qed

lemma comb_arr_reorder: "comb_arr vals max_time = Inr (reorder (scan_pairs vals max_time))"
  by (simp add: comb_arr_eq reorder_def)

lemma set_scan_pairs:
  "(c, j) \<in> set (scan_pairs vals max_time) \<longleftrightarrow>
     c = winner vals max_time j \<and> eligible_rows vals max_time j \<noteq> []"
proof
  assume "(c, j) \<in> set (scan_pairs vals max_time)"
  then obtain x where x: "x \<in> set (eligible_cells vals max_time)"
    and c: "c = winner vals max_time (snd x)" and j: "j = snd x"
    by (auto simp: scan_pairs_def)
  from x j have "(fst x, j) \<in> set (eligible_cells vals max_time)" by simp
  then have "fst x \<in> set (eligible_rows vals max_time j)"
    by (simp add: eligible_cells_iff eligible_rows_iff)
  then have "eligible_rows vals max_time j \<noteq> []" by auto
  with c j show "c = winner vals max_time j \<and> eligible_rows vals max_time j \<noteq> []" by simp
next
  assume a: "c = winner vals max_time j \<and> eligible_rows vals max_time j \<noteq> []"
  then obtain i where "i \<in> set (eligible_rows vals max_time j)"
    by (cases "eligible_rows vals max_time j") auto
  then have "(i, j) \<in> set (eligible_cells vals max_time)"
    by (simp add: eligible_cells_iff eligible_rows_iff)
  then have "(\<lambda>c. (winner vals max_time (snd c), snd c)) (i, j)
               \<in> (\<lambda>c. (winner vals max_time (snd c), snd c)) ` set (eligible_cells vals max_time)"
    by (rule imageI)
  with a show "(c, j) \<in> set (scan_pairs vals max_time)" by (simp add: scan_pairs_def)
qed

lemma filter_column_reorder:
  "filter (\<lambda>r. snd r = j) (reorder (scan_pairs vals max_time))
     = replicate (length (eligible_rows vals max_time j)) (winner vals max_time j, j)"
proof -
  let ?F = "filter (\<lambda>r. snd r = j) (reorder (scan_pairs vals max_time))"
  have "\<forall>r \<in> set ?F. r = (winner vals max_time j, j)"
    using set_scan_pairs[of _ j vals max_time] by (auto simp: set_reorder)
  then have "replicate (length ?F) (winner vals max_time j, j) = ?F"
    by (rule replicate_length_same)
  moreover have "length ?F = length (eligible_rows vals max_time j)"
  proof -
    have "length ?F = length (filter (\<lambda>r. snd r = j) (scan_pairs vals max_time))"
      by (rule length_filter_reorder)
    also have "\<dots> = length (filter (\<lambda>c. snd c = j) (eligible_cells vals max_time))"
      by (simp add: scan_pairs_def filter_map comp_def)
    finally show ?thesis by (simp add: length_eligible_rows)
  qed
  ultimately show ?thesis by simp
qed

lemma report_loop_eq:
  assumes "\<forall>r \<in> set pairs. fst r < length origin_names \<and> fst r < length origin_addresses \<and>
             snd r < length destination_names \<and> snd r < length destination_addresses"
  shows "report_loop origin_addresses origin_names destination_addresses destination_names pairs acc
       = Inr (acc @ map (block_of origin_addresses origin_names destination_addresses
                           destination_names) pairs)"
  using assms
proof (induction pairs arbitrary: acc)
  case Nil
  show ?case by simp
next
  case (Cons r pairs)
  obtain i j where r: "r = (i, j)" by (cases r)
  from Cons.prems r have "i < length origin_names \<and> i < length origin_addresses \<and>
      j < length destination_names \<and> j < length destination_addresses" by simp
  moreover from Cons.prems have "\<forall>r \<in> set pairs. fst r < length origin_names \<and>
      fst r < length origin_addresses \<and> snd r < length destination_names \<and>
      snd r < length destination_addresses" by simp
  ultimately show ?case using Cons.IH r by (simp add: block_of_def)
qed

lemma comb_arr_in_range:
  assumes "shape vals n m" and "comb_arr vals max_time = Inr pairs" and "r \<in> set pairs"
  shows "fst r < n \<and> snd r < m"
proof -
  obtain c j where r: "r = (c, j)" by (cases r)
  from assms(2) have "pairs = reorder (scan_pairs vals max_time)"
    by (simp add: comb_arr_reorder)
  with assms(3) r have "(c, j) \<in> set (scan_pairs vals max_time)"
    by (simp add: set_reorder)
  then have "is_closest vals max_time c j"
    using winner_is_closest by (simp add: set_scan_pairs)
  then have "c < length vals" and "j < length (vals ! c)"
    by (simp_all add: is_closest_def eligible_def)
  with assms(1) r show ?thesis by (auto simp: shape_def list_all_length)
qed

lemma closest_from_eq:
  assumes "shape (df_values times_df) (length origin_names) (length destination_names)"
    and "length origin_addresses = length origin_names"
    and "length destination_addresses = length destination_names"
    and "comb_arr (df_values times_df) max_time = Inr pairs"
  shows "closest_from origin_addresses origin_names destination_addresses destination_names
           max_time times_df
       = Inr (times_df, map (block_of origin_addresses origin_names destination_addresses
                               destination_names) pairs)"
proof -
  have "\<forall>r \<in> set pairs. fst r < length origin_names \<and> fst r < length origin_addresses \<and>
             snd r < length destination_names \<and> snd r < length destination_addresses"
    using comb_arr_in_range[OF assms(1) assms(4)] assms(2,3) by simp
  from report_loop_eq[OF this, of "[]"] assms(4) show ?thesis
    by (simp add: closest_from_def)
qed

lemma row_warnings_Nil: "row_warnings g j [] = []"
  by (simp add: row_warnings_def)

lemma row_warnings_Cons:
  "row_warnings g j (d # ds) =
     (if api_status (g j) = ''OK'' then [] else [no_route_message d (api_status (g j))])
     @ row_warnings g (Suc j) ds"
  by (simp add: row_warnings_def)

lemma destination_loop_ok:
  assumes "\<forall>j'. j \<le> j' \<and> j' < j + length dests \<longrightarrow> answered (g j')"
    and "i < length (times_arr st)"
  shows "\<exists>st'. destination_loop g orig dep k i j dests st = (None, st')
        \<and> length (times_arr st') = length (times_arr st)
        \<and> (\<forall>i'. i' \<noteq> i \<longrightarrow> times_arr st' ! i' = times_arr st ! i')
        \<and> length (times_arr st' ! i) = length (times_arr st ! i)
        \<and> (\<forall>j' < length (times_arr st ! i). times_arr st' ! i ! j' =
              (if j \<le> j' \<and> j' < j + length dests \<and> api_status (g j') = ''OK''
               then expected_cell (g j') else times_arr st ! i ! j'))
        \<and> printed st' = printed st @ row_warnings g j dests"
  using assms
proof (induction dests arbitrary: j st)
  case Nil
  show ?case by (simp add: row_warnings_Nil)
next
  case (Cons d ds)
  let ?st1 = "st\<lparr>requests := requests st @
                   [\<lparr>p_origin = orig, p_destination = d, p_departure_time = dep, p_key = k\<rparr>]\<rparr>"
  from Cons.prems(1) have here: "answered (g j)" by simp
  from Cons.prems(1) have later: "\<forall>j'. Suc j \<le> j' \<and> j' < Suc j + length ds \<longrightarrow> answered (g j')"
    by simp
  show ?case
  proof (cases "api_status (g j) = ''OK''")
    case True
    with here obtain v where v: "duration_value (g j) = Some v" by (auto simp: answered_def)
    let ?st2 = "?st1\<lparr>times_arr := (times_arr ?st1)[i := (times_arr ?st1 ! i)[j := v]]\<rparr>"
    have i2: "i < length (times_arr ?st2)" using Cons.prems(2) by simp
    from Cons.IH[OF later i2, of ] obtain st' where
      run: "destination_loop g orig dep k i (Suc j) ds ?st2 = (None, st')"
      and len: "length (times_arr st') = length (times_arr ?st2)"
      and other: "\<forall>i'. i' \<noteq> i \<longrightarrow> times_arr st' ! i' = times_arr ?st2 ! i'"
      and rowlen: "length (times_arr st' ! i) = length (times_arr ?st2 ! i)"
      and cells: "\<forall>j' < length (times_arr ?st2 ! i). times_arr st' ! i ! j' =
              (if Suc j \<le> j' \<and> j' < Suc j + length ds \<and> api_status (g j') = ''OK''
               then expected_cell (g j') else times_arr ?st2 ! i ! j')"
      and pr: "printed st' = printed ?st2 @ row_warnings g (Suc j) ds"
      by blast
    have step: "destination_loop g orig dep k i j (d # ds) st = (None, st')"
      using here True v run by (simp add: answered_def Let_def)
    have c: "\<forall>j' < length (times_arr st ! i). times_arr st' ! i ! j' =
              (if j \<le> j' \<and> j' < j + length (d # ds) \<and> api_status (g j') = ''OK''
               then expected_cell (g j') else times_arr st ! i ! j')"
    proof (intro allI impI)
      fix j' assume b: "j' < length (times_arr st ! i)"
      show "times_arr st' ! i ! j' =
              (if j \<le> j' \<and> j' < j + length (d # ds) \<and> api_status (g j') = ''OK''
               then expected_cell (g j') else times_arr st ! i ! j')"
      proof (cases "j' = j")
        case True
        then show ?thesis using cells b Cons.prems(2) v \<open>api_status (g j) = ''OK''\<close>
          by (simp add: expected_cell_def)
      next
        case False
        then show ?thesis using cells b Cons.prems(2)
          by (auto simp: nth_list_update)
      qed
    qed
    show ?thesis
      using step len other rowlen c pr True Cons.prems(2)
      by (simp add: row_warnings_Cons)
  next
    case False
    let ?st2 = "?st1\<lparr>printed := printed ?st1 @ [no_route_message d (api_status (g j))]\<rparr>"
    have i2: "i < length (times_arr ?st2)" using Cons.prems(2) by simp
    from Cons.IH[OF later i2] obtain st' where
      run: "destination_loop g orig dep k i (Suc j) ds ?st2 = (None, st')"
      and len: "length (times_arr st') = length (times_arr ?st2)"
      and other: "\<forall>i'. i' \<noteq> i \<longrightarrow> times_arr st' ! i' = times_arr ?st2 ! i'"
      and rowlen: "length (times_arr st' ! i) = length (times_arr ?st2 ! i)"
      and cells: "\<forall>j' < length (times_arr ?st2 ! i). times_arr st' ! i ! j' =
              (if Suc j \<le> j' \<and> j' < Suc j + length ds \<and> api_status (g j') = ''OK''
               then expected_cell (g j') else times_arr ?st2 ! i ! j')"
      and pr: "printed st' = printed ?st2 @ row_warnings g (Suc j) ds"
      by blast
    have step: "destination_loop g orig dep k i j (d # ds) st = (None, st')"
      using here False run by (simp add: answered_def Let_def)
    have c: "\<forall>j' < length (times_arr st ! i). times_arr st' ! i ! j' =
              (if j \<le> j' \<and> j' < j + length (d # ds) \<and> api_status (g j') = ''OK''
               then expected_cell (g j') else times_arr st ! i ! j')"
    proof (intro allI impI)
      fix j' assume b: "j' < length (times_arr st ! i)"
      show "times_arr st' ! i ! j' =
              (if j \<le> j' \<and> j' < j + length (d # ds) \<and> api_status (g j') = ''OK''
               then expected_cell (g j') else times_arr st ! i ! j')"
      proof (cases "j' = j")
        case True
        then show ?thesis using cells b False by simp
      next
        case False
        then show ?thesis using cells b by auto
      qed
    qed
    show ?thesis
      using step len other rowlen c pr False
      by (simp add: row_warnings_Cons)
  qed
qed

lemma destination_loop_fails:
  assumes "j \<le> j'" and "j' < j + length dests" and "\<not> answered (g j')"
  shows "\<exists>e st'. destination_loop g orig dep k i j dests st = (Some e, st')"
  using assms
proof (induction dests arbitrary: j st)
  case Nil
  then show ?case by simp
next
  case (Cons d ds)
  show ?case
  proof (cases "j' = j")
    case True
    with Cons.prems show ?thesis by (auto simp: Let_def answered_def)
  next
    case False
    with Cons.prems have "Suc j \<le> j'" and "j' < Suc j + length ds" by simp_all
    from Cons.IH[OF this Cons.prems(3)] show ?thesis
      by (auto simp: Let_def split: option.splits)
  qed
qed

lemma origin_loop_ok:
  assumes "\<forall>i' j'. i \<le> i' \<and> i' < i + length origs \<and> j' < length dests \<longrightarrow> answered (get i' j')"
    and "i + length origs \<le> length (times_arr st)"
  shows "\<exists>st'. origin_loop clock get k dests i origs st = (None, st')
        \<and> length (times_arr st') = length (times_arr st)
        \<and> (\<forall>i' < length (times_arr st).
              length (times_arr st' ! i') = length (times_arr st ! i'))
        \<and> (\<forall>i' < length (times_arr st). \<forall>j' < length (times_arr st ! i').
              times_arr st' ! i' ! j' =
                (if i \<le> i' \<and> i' < i + length origs \<and> j' < length dests
                    \<and> api_status (get i' j') = ''OK''
                 then expected_cell (get i' j') else times_arr st ! i' ! j'))
        \<and> printed st' = printed st @
            concat (map (\<lambda>i'. row_warnings (get i') 0 dests) [i..<i + length origs])"
  using assms
proof (induction origs arbitrary: i st)
  case Nil
  show ?case by simp
next
  case (Cons orig origs)
  from Cons.prems(1) have row: "\<forall>j'. 0 \<le> j' \<and> j' < 0 + length dests \<longrightarrow> answered (get i j')"
    by simp
  from Cons.prems(2) have i: "i < length (times_arr st)" by simp
  from destination_loop_ok[OF row i, of orig "clock i" k] obtain st1 where
    run1: "destination_loop (get i) orig (clock i) k i 0 dests st = (None, st1)"
    and len1: "length (times_arr st1) = length (times_arr st)"
    and other1: "\<forall>i'. i' \<noteq> i \<longrightarrow> times_arr st1 ! i' = times_arr st ! i'"
    and rowlen1: "length (times_arr st1 ! i) = length (times_arr st ! i)"
    and cells1: "\<forall>j' < length (times_arr st ! i). times_arr st1 ! i ! j' =
              (if 0 \<le> j' \<and> j' < 0 + length dests \<and> api_status (get i j') = ''OK''
               then expected_cell (get i j') else times_arr st ! i ! j')"
    and pr1: "printed st1 = printed st @ row_warnings (get i) 0 dests"
    by blast
  from Cons.prems(1) have later:
    "\<forall>i' j'. Suc i \<le> i' \<and> i' < Suc i + length origs \<and> j' < length dests \<longrightarrow> answered (get i' j')"
    by simp
  from Cons.prems(2) len1 have bound: "Suc i + length origs \<le> length (times_arr st1)" by simp
  from Cons.IH[OF later bound] obtain st' where
    run: "origin_loop clock get k dests (Suc i) origs st1 = (None, st')"
    and len: "length (times_arr st') = length (times_arr st1)"
    and rowlen: "\<forall>i' < length (times_arr st1).
              length (times_arr st' ! i') = length (times_arr st1 ! i')"
    and cells: "\<forall>i' < length (times_arr st1). \<forall>j' < length (times_arr st1 ! i').
              times_arr st' ! i' ! j' =
                (if Suc i \<le> i' \<and> i' < Suc i + length origs \<and> j' < length dests
                    \<and> api_status (get i' j') = ''OK''
                 then expected_cell (get i' j') else times_arr st1 ! i' ! j')"
    and pr: "printed st' = printed st1 @
            concat (map (\<lambda>i'. row_warnings (get i') 0 dests) [Suc i..<Suc i + length origs])"
    by blast
  have rl: "length (times_arr st1 ! i') = length (times_arr st ! i')" for i'
    using other1 rowlen1 by (cases "i' = i") simp_all
  have step: "origin_loop clock get k dests i (orig # origs) st = (None, st')"
    using run1 run by simp
  have c: "\<forall>i' < length (times_arr st). \<forall>j' < length (times_arr st ! i').
              times_arr st' ! i' ! j' =
                (if i \<le> i' \<and> i' < i + length (orig # origs) \<and> j' < length dests
                    \<and> api_status (get i' j') = ''OK''
                 then expected_cell (get i' j') else times_arr st ! i' ! j')"
  proof (intro allI impI)
    fix i' j' assume a: "i' < length (times_arr st)" and b: "j' < length (times_arr st ! i')"
    from a b cells len1 rl have e: "times_arr st' ! i' ! j' =
                (if Suc i \<le> i' \<and> i' < Suc i + length origs \<and> j' < length dests
                    \<and> api_status (get i' j') = ''OK''
                 then expected_cell (get i' j') else times_arr st1 ! i' ! j')"
      by simp
    show "times_arr st' ! i' ! j' =
                (if i \<le> i' \<and> i' < i + length (orig # origs) \<and> j' < length dests
                    \<and> api_status (get i' j') = ''OK''
                 then expected_cell (get i' j') else times_arr st ! i' ! j')"
    proof (cases "i' = i")
      case True
      with e cells1 b show ?thesis by simp
    next
      case False
      with e other1 show ?thesis by auto
    qed
  qed
  have p: "printed st' = printed st @
            concat (map (\<lambda>i'. row_warnings (get i') 0 dests) [i..<i + length (orig # origs)])"
    using pr pr1 by (simp add: upt_conv_Cons del: upt_Suc)
  show ?case using step len len1 rowlen rl c p by simp
qed

lemma origin_loop_fails:
  assumes "i \<le> i'" and "i' < i + length origs" and "j' < length dests"
    and "\<not> answered (get i' j')"
  shows "\<exists>e st'. origin_loop clock get k dests i origs st = (Some e, st')"
  using assms(1,2)
proof (induction origs arbitrary: i st)
  case Nil
  then show ?case by simp
next
  case (Cons orig origs)
  show ?case
  proof (cases "destination_loop (get i) orig (clock i) k i 0 dests st")
    case (Pair r st1)
    show ?thesis
    proof (cases r)
      case (Some e)
      with Pair show ?thesis by simp
    next
      case None
      have "i' \<noteq> i"
      proof
        assume "i' = i"
        with destination_loop_fails[of 0 j' dests "get i" orig "clock i" k i st] assms(3,4)
        obtain e st2 where "destination_loop (get i) orig (clock i) k i 0 dests st = (Some e, st2)"
          by auto
        with Pair None show False by simp
      qed
      with Cons.prems have "Suc i \<le> i'" and "i' < Suc i + length origs" by simp_all
      from Cons.IH[OF this, of st1] Pair None show ?thesis by simp
    qed
  qed
qed

lemma time_to_destinations_ok:
  assumes "length origin_names = length origin_addresses"
    and "length destination_names = length destination_addresses"
    and "apikey \<noteq> []"
    and "\<forall>i < length origin_addresses. \<forall>j < length destination_addresses. answered (get i j)"
  shows "\<exists>df reqs.
           time_to_destinations clock get origin_addresses origin_names destination_addresses
             destination_names apikey
           = (Inr df, reqs, all_warnings get (length origin_addresses) destination_addresses)
         \<and> df_columns df = destination_names \<and> df_index df = origin_names
         \<and> shape (df_values df) (length origin_addresses) (length destination_addresses)
         \<and> (\<forall>i < length origin_addresses. \<forall>j < length destination_addresses.
               df_values df ! i ! j = expected_cell (get i j))"
proof -
  let ?n = "length origin_addresses" and ?m = "length destination_addresses"
  let ?st0 = "\<lparr>times_arr = replicate ?n (replicate ?m 0), requests = [], printed = []\<rparr>"
  have good: "\<forall>i' j'. 0 \<le> i' \<and> i' < 0 + length origin_addresses \<and> j' < length destination_addresses
                \<longrightarrow> answered (get i' j')"
    using assms(4) by simp
  have bound: "0 + length origin_addresses \<le> length (times_arr ?st0)" by simp
  from origin_loop_ok[OF good bound, of clock apikey] obtain st' where
    run: "origin_loop clock get apikey destination_addresses 0 origin_addresses ?st0 = (None, st')"
    and len: "length (times_arr st') = length (times_arr ?st0)"
    and rowlen: "\<forall>i' < length (times_arr ?st0).
              length (times_arr st' ! i') = length (times_arr ?st0 ! i')"
    and cells: "\<forall>i' < length (times_arr ?st0). \<forall>j' < length (times_arr ?st0 ! i').
              times_arr st' ! i' ! j' =
                (if 0 \<le> i' \<and> i' < 0 + length origin_addresses \<and> j' < length destination_addresses
                    \<and> api_status (get i' j') = ''OK''
                 then expected_cell (get i' j') else times_arr ?st0 ! i' ! j')"
    and pr: "printed st' = printed ?st0 @
            concat (map (\<lambda>i'. row_warnings (get i') 0 destination_addresses)
                      [0..<0 + length origin_addresses])"
    by blast
  have sh: "shape (times_arr st') ?n ?m"
    using len rowlen by (simp add: shape_def list_all_length)
  have cs: "\<forall>i < ?n. \<forall>j < ?m. times_arr st' ! i ! j = expected_cell (get i j)"
    using cells by (simp add: expected_cell_def)
  have "time_to_destinations clock get origin_addresses origin_names destination_addresses
             destination_names apikey
       = (Inr \<lparr>df_values = times_arr st', df_columns = destination_names,
                df_index = origin_names\<rparr>,
          requests st', all_warnings get ?n destination_addresses)"
    using assms(1-3) run pr by (simp add: time_to_destinations_def all_warnings_def)
  with sh cs show ?thesis by simp
qed

lemma time_to_destinations_fails:
  assumes "i < length origin_addresses" and "j < length destination_addresses"
    and "\<not> answered (get i j)"
  shows "\<exists>e. fst (time_to_destinations clock get origin_addresses origin_names
                    destination_addresses destination_names apikey) = Inl e"
proof -
  let ?n = "length origin_addresses" and ?m = "length destination_addresses"
  let ?st0 = "\<lparr>times_arr = replicate ?n (replicate ?m 0), requests = [], printed = []\<rparr>"
  from origin_loop_fails[of 0 i origin_addresses j destination_addresses get clock apikey ?st0]
       assms
  obtain e st' where
    "origin_loop clock get apikey destination_addresses 0 origin_addresses ?st0 = (Some e, st')"
    by auto
  then show ?thesis by (auto simp: time_to_destinations_def Let_def)
qed

lemma split_lines_line:
  "CHR 10 \<notin> set l \<Longrightarrow> split_lines (l @ CHR 10 # rest) = l # split_lines rest"
  by (induction l) auto

lemma strip_prefix_append: "strip_prefix p (p @ s) = Some s"
  by (simp add: strip_prefix_def)

lemma output_string_lines:
  "output_string a b c d =
     (''Origin Name: '' @ a) @ CHR 10 #
     (''Origin Address: '' @ b) @ CHR 10 #
     (''Destination Name: '' @ c) @ CHR 10 #
     (''Destination Address: '' @ d) @ CHR 10 # []"
  by (simp add: output_string_def)

lemma split_lines_output_string:
  assumes "CHR 10 \<notin> set a" "CHR 10 \<notin> set b" "CHR 10 \<notin> set c" "CHR 10 \<notin> set d"
  shows "split_lines (output_string a b c d) =
     [''Origin Name: '' @ a, ''Origin Address: '' @ b,
      ''Destination Name: '' @ c, ''Destination Address: '' @ d]"
proof -
  have 1: "CHR 10 \<notin> set (''Origin Name: '' @ a)" using assms(1) by simp
  have 2: "CHR 10 \<notin> set (''Origin Address: '' @ b)" using assms(2) by simp
  have 3: "CHR 10 \<notin> set (''Destination Name: '' @ c)" using assms(3) by simp
  have 4: "CHR 10 \<notin> set (''Destination Address: '' @ d)" using assms(4) by simp
  show ?thesis
    unfolding output_string_lines
    by (simp only: split_lines_line[OF 1] split_lines_line[OF 2] split_lines_line[OF 3]
          split_lines_line[OF 4] split_lines.simps)
qed

lemma parse_block_output_string:
  assumes "CHR 10 \<notin> set a" "CHR 10 \<notin> set b" "CHR 10 \<notin> set c" "CHR 10 \<notin> set d"
  shows "parse_block (output_string a b c d) = Some (a, b, c, d)"
  unfolding parse_block_def split_lines_output_string[OF assms]
  by (simp only: strip_prefix_append list.case prod.case option.case)

lemma get_closest_locations_supplied:
  "get_closest_locations clock get origin_addresses origin_names destination_addresses
     destination_names max_time (Some df) apikey = Inl (ValueError ambiguous_truth_message)"
  by (simp add: get_closest_locations_def)

lemma get_closest_locations_no_credential:
  "not_apikey apikey \<Longrightarrow>
   get_closest_locations clock get origin_addresses origin_names destination_addresses
     destination_names max_time None apikey = Inl (ValueError apikey_required_message)"
  by (simp add: get_closest_locations_def)

lemma get_closest_locations_provider:
  "k \<noteq> [] \<Longrightarrow>
   get_closest_locations clock get origin_addresses origin_names destination_addresses
     destination_names max_time None (Some k)
   = (case fst (time_to_destinations clock get origin_addresses origin_names
                  destination_addresses destination_names k) of
        Inl e \<Rightarrow> Inl e
      | Inr df \<Rightarrow> closest_from origin_addresses origin_names destination_addresses
                    destination_names max_time df)"
  by (simp add: get_closest_locations_def)

lemma time_to_destinations_success:
  assumes "fst (time_to_destinations clock get origin_addresses origin_names
                  destination_addresses destination_names k) = Inr df"
  shows "length origin_names = length origin_addresses
       \<and> length destination_names = length destination_addresses
       \<and> k \<noteq> []
       \<and> shape (df_values df) (length origin_addresses) (length destination_addresses)"
proof -
  have l1: "length origin_names = length origin_addresses"
    and l2: "length destination_names = length destination_addresses"
    and k: "k \<noteq> []"
    using assms by (auto simp: time_to_destinations_def Let_def split: if_splits)
  have good: "\<forall>i < length origin_addresses. \<forall>j < length destination_addresses. answered (get i j)"
  proof (intro allI impI)
    fix i j assume "i < length origin_addresses" and "j < length destination_addresses"
    show "answered (get i j)"
    proof (rule ccontr)
      assume "\<not> answered (get i j)"
      from time_to_destinations_fails[of i origin_addresses j destination_addresses get
             clock origin_names destination_names k] \<open>i < length origin_addresses\<close>
           \<open>j < length destination_addresses\<close> \<open>\<not> answered (get i j)\<close> assms
      show False by simp
    qed
  qed
  from time_to_destinations_ok[OF l1 l2 k good, of clock] assms
  have "shape (df_values df) (length origin_addresses) (length destination_addresses)"
    by auto
  with l1 l2 k show ?thesis by simp
qed

lemma closest_from_total:
  assumes "shape (df_values times_df) (length origin_names) (length destination_names)"
    and "length origin_addresses = length origin_names"
    and "length destination_addresses = length destination_names"
  shows "\<exists>closest_locations.
           closest_from origin_addresses origin_names destination_addresses destination_names
             max_time times_df = Inr (times_df, closest_locations)"
  using closest_from_eq[OF assms comb_arr_reorder] by blast

lemma destination_loop_error:
  "destination_loop g orig dep k i j dests st = (Some e, st') \<Longrightarrow>
     e = LookupError \<or> (\<exists>msg. e = Exception msg)"
proof (induction dests arbitrary: j st)
  case Nil
  then show ?case by simp
next
  case (Cons d ds)
  then show ?case
    by (auto simp: Let_def split: if_splits option.splits)
qed

lemma origin_loop_error:
  "origin_loop clock get k dests i origs st = (Some e, st') \<Longrightarrow>
     e = LookupError \<or> (\<exists>msg. e = Exception msg)"
proof (induction origs arbitrary: i st)
  case Nil
  then show ?case by simp
next
  case (Cons orig origs)
  then show ?case
    by (auto split: prod.splits option.splits dest: destination_loop_error)
qed

lemma report_loop_error:
  "report_loop origin_addresses origin_names destination_addresses destination_names pairs acc
     = Inl e \<Longrightarrow> e = IndexError"
proof (induction pairs arbitrary: acc)
  case Nil
  then show ?case by simp
next
  case (Cons r pairs)
  obtain i j where "r = (i, j)" by (cases r)
  with Cons show ?case by (auto split: if_splits)
qed

lemma credential_error_iff:
  "get_closest_locations clock get origin_addresses origin_names destination_addresses
     destination_names max_time times_df apikey = Inl (ValueError apikey_required_message)
   \<longleftrightarrow> times_df = None \<and> not_apikey apikey"
proof (cases times_df)
  case (Some df)
  then show ?thesis
    by (simp add: get_closest_locations_supplied ambiguous_truth_message_def
          apikey_required_message_def)
next
  case None
  show ?thesis
  proof (cases "not_apikey apikey")
    case True
    with None show ?thesis by (simp add: get_closest_locations_no_credential)
  next
    case False
    then obtain k where k: "apikey = Some k" "k \<noteq> []" by (cases apikey) auto
    let ?t = "time_to_destinations clock get origin_addresses origin_names
                  destination_addresses destination_names k"
    have "get_closest_locations clock get origin_addresses origin_names destination_addresses
            destination_names max_time None (Some k) \<noteq> Inl (ValueError apikey_required_message)"
    proof (cases "fst ?t")
      case (Inl e)
      have "e \<noteq> ValueError apikey_required_message"
        using Inl k(2)
        by (auto simp: time_to_destinations_def Let_def names_mismatch_message_def
              apikey_required_message_def
            split: if_splits prod.splits option.splits dest: origin_loop_error)
      with Inl k(2) show ?thesis by (simp add: get_closest_locations_provider)
    next
      case (Inr df)
      have "closest_from origin_addresses origin_names destination_addresses destination_names
              max_time df \<noteq> Inl (ValueError apikey_required_message)"
        by (auto simp: closest_from_def comb_arr_reorder split: sum.splits
            dest: report_loop_error)
      with Inr k(2) show ?thesis by (simp add: get_closest_locations_provider)
    qed
    with None False k show ?thesis by simp
  qed
qed

lemma warning_listed:
  assumes "i < n" and "j < length dests" and "api_status (get i j) \<noteq> ''OK''"
  shows "no_route_message (dests ! j) (api_status (get i j)) \<in> set (all_warnings get n dests)"
proof -
  have "(j, dests ! j) \<in> set (enumerate 0 dests)"
    using assms(2) by (simp add: in_set_enumerate_eq)
  with assms(3) have "(j, dests ! j) \<in> set (filter (\<lambda>(j', dest). api_status (get i j') \<noteq> ''OK'')
                          (enumerate 0 dests))"
    by simp
  then have "(\<lambda>(j', dest). no_route_message dest (api_status (get i j'))) (j, dests ! j)
           \<in> set (row_warnings (get i) 0 dests)"
    unfolding row_warnings_def set_map by (rule imageI)
  then have "no_route_message (dests ! j) (api_status (get i j)) \<in> set (row_warnings (get i) 0 dests)"
    by simp
  with assms(1) show ?thesis by (auto simp: all_warnings_def)
qed

lemma records_sorted_by_origin:
  "\<exists>pairs. comb_arr vals max_time = Inr pairs \<and> sorted (map fst pairs)"
  using comb_arr_reorder[of vals max_time] sorted_reorder[of "scan_pairs vals max_time"]
  by simp

lemma table_passed_through:
  "(shape (df_values times_df) (length origin_names) (length destination_names)
      \<and> length origin_addresses = length origin_names
      \<and> length destination_addresses = length destination_names
    \<longrightarrow> (\<exists>closest_locations.
           closest_from origin_addresses origin_names destination_addresses destination_names
             max_time times_df = Inr (times_df, closest_locations)))
   \<and> (fst (time_to_destinations clock get origin_addresses origin_names destination_addresses
              destination_names k) = Inr times_df
    \<longrightarrow> (\<exists>closest_locations.
           get_closest_locations clock get origin_addresses origin_names destination_addresses
             destination_names max_time None (Some k) = Inr (times_df, closest_locations)))"
proof (intro conjI impI)
  assume "shape (df_values times_df) (length origin_names) (length destination_names)
      \<and> length origin_addresses = length origin_names
      \<and> length destination_addresses = length destination_names"
  then show "\<exists>closest_locations.
           closest_from origin_addresses origin_names destination_addresses destination_names
             max_time times_df = Inr (times_df, closest_locations)"
    using closest_from_total by blast
next
  assume t: "fst (time_to_destinations clock get origin_addresses origin_names
               destination_addresses destination_names k) = Inr times_df"
  from time_to_destinations_success[OF t]
  have l1: "length origin_names = length origin_addresses"
    and l2: "length destination_names = length destination_addresses"
    and k: "k \<noteq> []"
    and sh: "shape (df_values times_df) (length origin_addresses) (length destination_addresses)"
    by simp_all
  from sh l1 l2
  have "shape (df_values times_df) (length origin_names) (length destination_names)" by simp
  from closest_from_total[OF this l1[symmetric] l2[symmetric], of max_time]
  obtain closest_locations where
    "closest_from origin_addresses origin_names destination_addresses destination_names
       max_time times_df = Inr (times_df, closest_locations)" by blast
  with t k show "\<exists>closest_locations.
           get_closest_locations clock get origin_addresses origin_names destination_addresses
             destination_names max_time None (Some k) = Inr (times_df, closest_locations)"
    by (simp add: get_closest_locations_provider)
qed

section \<open>The claims\<close>

text \<open>
  What follows the check of the arguments (lines 476 to 515) is stated on
  \<open>comb_arr\<close> and \<open>closest_from\<close>, for any table. The table reaches that
  computation from \<^verbatim>\<open>time_to_destinations\<close>; \<open>get_closest_locations_provider\<close>
  and \<open>time_to_destinations_success\<close> carry a statement about \<open>closest_from\<close> over to
  \<open>get_closest_locations\<close>.
\<close>

subsection \<open>C1: which calls fail for a missing credential\<close>

text \<open>
  C1 says that the call fails exactly when neither a table nor a credential is given,
  and that a call with a table and no credential raises nothing and goes on to the
  assignment. By \<open>credential_error_iff\<close> the error of line 471 is raised exactly when
  neither is given. A call with a table does not go on: \<^verbatim>\<open>not times_df\<close> of
  line 470 raises for every DataFrame. C1 at the table of the example, with no
  credential: the call ends in a \<^verbatim>\<open>ValueError\<close>.
\<close>

theorem supplied_table_raises:
  "get_closest_locations example_clock example_get [''a1'', ''a2''] [''A'', ''B'']
     [''x1'', ''y1''] [''X'', ''Y''] 600 (Some example_df) None
   = Inl (ValueError ambiguous_truth_message)"
  by (simp add: get_closest_locations_def)

subsection \<open>C2: one record per destination\<close>

text \<open>
  C2 says that a destination column with at least one row below the threshold gets
  exactly one record. The loop runs over \<^verbatim>\<open>j_arr\<close>, which names a column once
  for each of its eligible rows. C2 at two origins and one destination, both within the
  threshold: the column gets two records, and the report holds the same block twice.
\<close>

theorem one_record_per_eligible_cell:
  "get_closest_locations example_clock example_get [''a1'', ''a2''] [''A'', ''B''] [''x1''] [''X'']
     600 None (Some ''key'')
   = Inr (\<lparr>df_values = [[500], [300]], df_columns = [''X''], df_index = [''A'', ''B'']\<rparr>,
          [output_string ''B'' ''a2'' ''X'' ''x1'', output_string ''B'' ''a2'' ''X'' ''x1''])
   \<and> comb_arr [[500], [300]] 600 = Inr [(1, 0), (1, 0)]"
  by code_simp

subsection \<open>C3: one string per eligible cell\<close>

text \<open>
  C3: the number of strings returned equals the number of cells strictly below the
  threshold; the records of column \<open>j\<close> are as many copies of its winning pair as the
  column has eligible rows (none when it has none).
\<close>

theorem strings_count_eligible_cells:
  assumes "shape (df_values times_df) (length origin_names) (length destination_names)"
    and "length origin_addresses = length origin_names"
    and "length destination_addresses = length destination_names"
  shows "\<exists>pairs closest_locations.
           comb_arr (df_values times_df) max_time = Inr pairs
         \<and> closest_from origin_addresses origin_names destination_addresses destination_names
             max_time times_df = Inr (times_df, closest_locations)
         \<and> length closest_locations = length pairs
         \<and> length pairs = count_below (df_values times_df) max_time
         \<and> (\<forall>j. filter (\<lambda>r. snd r = j) pairs
                = replicate (length (eligible_rows (df_values times_df) max_time j))
                    (winner (df_values times_df) max_time j, j))"
proof -
  let ?pairs = "reorder (scan_pairs (df_values times_df) max_time)"
  have c: "comb_arr (df_values times_df) max_time = Inr ?pairs" by (rule comb_arr_reorder)
  have "length ?pairs = count_below (df_values times_df) max_time"
    by (simp add: length_reorder scan_pairs_def length_eligible_cells)
  with c closest_from_eq[OF assms c] filter_column_reorder show ?thesis by simp
qed

theorem strings_count_eligible_cells_witness:
  "shape (df_values example_df) (length [''A'', ''B'']) (length [''X'', ''Y''])
   \<and> (\<exists>pairs closest_locations.
         comb_arr (df_values example_df) 600 = Inr pairs
       \<and> closest_from [''a1'', ''a2''] [''A'', ''B''] [''x1'', ''y1''] [''X'', ''Y''] 600 example_df
           = Inr (example_df, closest_locations)
       \<and> length closest_locations = 3
       \<and> filter (\<lambda>r. snd r = 0) pairs = [(1, 0), (1, 0)]
       \<and> filter (\<lambda>r. snd r = 1) pairs = [(1, 1)])"
proof -
  have h: "shape (df_values example_df) (length [''A'', ''B'']) (length [''X'', ''Y''])"
    by (simp add: shape_def example_df_def example_times_def)
  have n: "count_below (df_values example_df) 600 = 3"
    by (simp add: count_below_def example_df_def example_times_def)
  have r0: "eligible_rows (df_values example_df) 600 0 = [0, 1]"
    and r1: "eligible_rows (df_values example_df) 600 1 = [1]"
    by code_simp+
  have w0: "winner (df_values example_df) 600 0 = 1"
    and w1: "winner (df_values example_df) 600 1 = 1"
    by code_simp+
  from strings_count_eligible_cells[OF h, of "[''a1'', ''a2'']" "[''x1'', ''y1'']" 600]
  obtain pairs closest_locations where
    "comb_arr (df_values example_df) 600 = Inr pairs"
    "closest_from [''a1'', ''a2''] [''A'', ''B''] [''x1'', ''y1''] [''X'', ''Y''] 600 example_df
       = Inr (example_df, closest_locations)"
    "length closest_locations = length pairs"
    "length pairs = count_below (df_values example_df) 600"
    "\<forall>j. filter (\<lambda>r. snd r = j) pairs
          = replicate (length (eligible_rows (df_values example_df) 600 j))
              (winner (df_values example_df) 600 j, j)"
    by auto
  moreover from this(5)
  have "filter (\<lambda>r. snd r = 0) pairs
          = replicate (length (eligible_rows (df_values example_df) 600 0))
              (winner (df_values example_df) 600 0, 0)"
    and "filter (\<lambda>r. snd r = 1) pairs
          = replicate (length (eligible_rows (df_values example_df) 600 1))
              (winner (df_values example_df) 600 1, 1)"
    by blast+
  then have "filter (\<lambda>r. snd r = 0) pairs = [(1, 0), (1, 0)]"
    and "filter (\<lambda>r. snd r = 1) pairs = [(1, 1)]"
    unfolding r0 r1 w0 w1 by (simp_all add: numeral_2_eq_2)
  ultimately show ?thesis using h n by auto
qed

subsection \<open>C4: the selected origin\<close>

text \<open>
  C4: a column with an eligible row has a record, and the origin of each of its
  records has the least travel time among the eligible rows of the column, the lowest
  index among the rows with that time, and is the eligible row when there is only one.
\<close>

theorem selected_origin_is_closest:
  assumes "eligible vals max_time i j"
  shows "\<exists>pairs. comb_arr vals max_time = Inr pairs
         \<and> (\<exists>c. (c, j) \<in> set pairs)
         \<and> (\<forall>c. (c, j) \<in> set pairs \<longrightarrow>
               is_closest vals max_time c j
             \<and> (eligible_rows vals max_time j = [i] \<longrightarrow> c = i))"
proof -
  let ?pairs = "reorder (scan_pairs vals max_time)"
  have c: "comb_arr vals max_time = Inr ?pairs" by (rule comb_arr_reorder)
  from assms have ne: "eligible_rows vals max_time j \<noteq> []"
    using eligible_rows_iff[of i vals max_time j] by auto
  then have w: "is_closest vals max_time (winner vals max_time j) j" by (rule winner_is_closest)
  have one: "eligible_rows vals max_time j = [i] \<longrightarrow> winner vals max_time j = i"
  proof
    assume "eligible_rows vals max_time j = [i]"
    moreover from w have "winner vals max_time j \<in> set (eligible_rows vals max_time j)"
      by (simp add: is_closest_def eligible_rows_iff)
    ultimately show "winner vals max_time j = i" by simp
  qed
  have "(winner vals max_time j, j) \<in> set ?pairs"
    using ne by (simp add: set_reorder set_scan_pairs)
  moreover have "\<forall>c. (c, j) \<in> set ?pairs \<longrightarrow>
      is_closest vals max_time c j \<and> (eligible_rows vals max_time j = [i] \<longrightarrow> c = i)"
    using w one by (simp add: set_reorder set_scan_pairs)
  ultimately show ?thesis using c by blast
qed

theorem selected_origin_is_closest_witness:
  "eligible tie_times 600 1 0 \<and> eligible tie_times 600 1 1
   \<and> eligible_rows tie_times 600 1 = [1]
   \<and> comb_arr tie_times 600 = Inr [(0, 0), (0, 0), (1, 1)]
   \<and> is_closest tie_times 600 0 0 \<and> is_closest tie_times 600 1 1"
proof -
  have e0: "eligible tie_times 600 1 0" and e1: "eligible tie_times 600 1 1"
    by (simp_all add: eligible_def tie_times_def)
  have r: "eligible_rows tie_times 600 1 = [1]" by code_simp
  have c: "comb_arr tie_times 600 = Inr [(0, 0), (0, 0), (1, 1)]" by code_simp
  from selected_origin_is_closest[OF e0] c have "is_closest tie_times 600 0 0" by auto
  moreover from selected_origin_is_closest[OF e1] c have "is_closest tie_times 600 1 1" by auto
  ultimately show ?thesis using e0 e1 r c by simp
qed

subsection \<open>C5: the threshold is strict\<close>

text \<open>
  C5: a cell whose value equals the threshold is not within time and is in no record;
  the table \<open>[[600]]\<close> with threshold 600 yields no record.
\<close>

theorem equal_to_max_time_not_selected:
  "(i < length vals \<and> j < length (vals ! i) \<and> vals ! i ! j = max_time \<longrightarrow>
      \<not> is_within_time vals max_time ! i ! j
    \<and> (\<exists>pairs. comb_arr vals max_time = Inr pairs \<and> (i, j) \<notin> set pairs))
   \<and> comb_arr [[600]] 600 = Inr []"
proof -
  have "comb_arr [[600]] 600 = Inr []"
    by (simp add: comb_arr_reorder reorder_def scan_pairs_def eligible_cells_def)
  moreover have "\<not> is_within_time vals max_time ! i ! j
      \<and> (\<exists>pairs. comb_arr vals max_time = Inr pairs \<and> (i, j) \<notin> set pairs)"
    if a: "i < length vals \<and> j < length (vals ! i) \<and> vals ! i ! j = max_time"
  proof -
    from a have "\<not> is_within_time vals max_time ! i ! j" by (simp add: is_within_time_def)
    moreover have "(i, j) \<notin> set (reorder (scan_pairs vals max_time))"
    proof
      assume "(i, j) \<in> set (reorder (scan_pairs vals max_time))"
      then have "is_closest vals max_time i j"
        using winner_is_closest[of vals max_time j] by (simp add: set_reorder set_scan_pairs)
      with a show False by (simp add: is_closest_def eligible_def)
    qed
    ultimately show ?thesis using comb_arr_reorder by blast
  qed
  ultimately show ?thesis by blast
qed

theorem equal_to_max_time_not_selected_witness:
  "(0::nat) < length [[600::int]] \<and> (0::nat) < length ([[600::int]] ! 0) \<and> [[600::int]] ! 0 ! 0 = 600
   \<and> \<not> is_within_time [[600]] 600 ! 0 ! 0
   \<and> (\<exists>pairs. comb_arr [[600]] 600 = Inr pairs \<and> (0, 0) \<notin> set pairs)"
  using equal_to_max_time_not_selected[of 0 "[[600]]" 0 600] by simp

subsection \<open>C6: the order of the records\<close>

text \<open>
  C6 says that the records are sorted by origin row, and that the records of one
  origin keep the order of the scan, which it takes to be ascending destination
  column. The records are sorted by origin row (\<open>records_sorted_by_origin\<close>). The
  order of the scan is not ascending: the loop runs over \<^verbatim>\<open>j_arr\<close> and appends one
  pair per eligible cell, row by row. C6 at a table whose two rows are both within the
  threshold in both columns: all four pairs the loop appends have origin 0, and their
  destinations are 0, 1, 0, 1 in the order of appending.
\<close>

theorem appended_destinations_not_ascending:
  "pair_loop [[1, 1], [2, 2]]
     (map fst (nonzero (is_within_time [[1, 1], [2, 2]] 10)))
     (map snd (nonzero (is_within_time [[1, 1], [2, 2]] 10)))
     (map snd (nonzero (is_within_time [[1, 1], [2, 2]] 10))) None ([], [])
   = Inr ([0, 0, 0, 0], [0, 1, 0, 1])
   \<and> destinations_of 0 (zip [0, 0, 0, 0] [0, 1, 0, 1]) = [0, 1, 0, 1]
   \<and> \<not> sorted (destinations_of 0 (zip [0, 0, 0, 0] [0, 1, 0, 1]))"
  by code_simp

subsection \<open>C7: the table is passed through\<close>

text \<open>
  C7 says that for every input table \<^verbatim>\<open>get_closest_locations\<close> returns the table
  unchanged as its first result. The computation of lines 476 to 515 does return the
  table it works on (\<open>table_passed_through\<close>), but a table given by the caller does not
  reach it: \<^verbatim>\<open>not times_df\<close> of line 470 raises, with or without a credential.
  C7 at the table of the example, with a credential: the call returns no table.
\<close>

theorem supplied_table_not_returned:
  "get_closest_locations example_clock example_get [''a1'', ''a2''] [''A'', ''B'']
     [''x1'', ''y1''] [''X'', ''Y''] 600 (Some example_df) (Some ''key'')
   = Inl (ValueError ambiguous_truth_message)"
  by (simp add: get_closest_locations_def)

subsection \<open>C8: the report block\<close>

text \<open>
  C8, amended: the string of a record \<open>(i, j)\<close> is the block of four labelled lines
  with the names and addresses at \<open>i\<close> and \<open>j\<close>, and splitting a block into lines
  gives back the four fields when none of them contains a line feed. (As stated, C8
  has no condition on the fields.)
\<close>

theorem report_block_round_trip:
  assumes "shape (df_values times_df) (length origin_names) (length destination_names)"
    and "length origin_addresses = length origin_names"
    and "length destination_addresses = length destination_names"
    and "comb_arr (df_values times_df) max_time = Inr pairs"
  shows "closest_from origin_addresses origin_names destination_addresses destination_names
           max_time times_df
         = Inr (times_df,
                map (\<lambda>r. output_string (origin_names ! fst r) (origin_addresses ! fst r)
                            (destination_names ! snd r) (destination_addresses ! snd r)) pairs)
       \<and> output_string a b c d
         = concat (map (\<lambda>l. l @ [CHR 10])
             [''Origin Name: '' @ a, ''Origin Address: '' @ b,
              ''Destination Name: '' @ c, ''Destination Address: '' @ d])
       \<and> (CHR 10 \<notin> set a \<and> CHR 10 \<notin> set b \<and> CHR 10 \<notin> set c \<and> CHR 10 \<notin> set d
            \<longrightarrow> parse_block (output_string a b c d) = Some (a, b, c, d))"
proof -
  have "block_of origin_addresses origin_names destination_addresses destination_names
      = (\<lambda>r. output_string (origin_names ! fst r) (origin_addresses ! fst r)
                (destination_names ! snd r) (destination_addresses ! snd r))"
    by (rule ext) (simp add: block_of_def)
  with closest_from_eq[OF assms]
  have "closest_from origin_addresses origin_names destination_addresses destination_names
           max_time times_df
         = Inr (times_df,
                map (\<lambda>r. output_string (origin_names ! fst r) (origin_addresses ! fst r)
                            (destination_names ! snd r) (destination_addresses ! snd r)) pairs)"
    by simp
  moreover have "output_string a b c d
         = concat (map (\<lambda>l. l @ [CHR 10])
             [''Origin Name: '' @ a, ''Origin Address: '' @ b,
              ''Destination Name: '' @ c, ''Destination Address: '' @ d])"
    by (simp add: output_string_def)
  ultimately show ?thesis using parse_block_output_string[of a b c d] by blast
qed

theorem report_block_round_trip_witness:
  "comb_arr (df_values example_df) 600 = Inr [(1, 0), (1, 0), (1, 1)]
   \<and> closest_from [''a1'', ''a2''] [''A'', ''B''] [''x1'', ''y1''] [''X'', ''Y''] 600 example_df
       = Inr (example_df,
              [output_string ''B'' ''a2'' ''X'' ''x1'', output_string ''B'' ''a2'' ''X'' ''x1'',
               output_string ''B'' ''a2'' ''Y'' ''y1''])
   \<and> parse_block (output_string ''B'' ''a2'' ''X'' ''x1'') = Some (''B'', ''a2'', ''X'', ''x1'')"
proof -
  have h: "shape (df_values example_df) (length [''A'', ''B'']) (length [''X'', ''Y''])"
    by (simp add: shape_def example_df_def example_times_def)
  have c: "comb_arr (df_values example_df) 600 = Inr [(1, 0), (1, 0), (1, 1)]" by code_simp
  have nl: "CHR 10 \<notin> set ''B'' \<and> CHR 10 \<notin> set ''a2'' \<and> CHR 10 \<notin> set ''X'' \<and> CHR 10 \<notin> set ''x1''"
    by simp
  from report_block_round_trip[OF h _ _ c, of "[''a1'', ''a2'']" "[''x1'', ''y1'']"
         "''B''" "''a2''" "''X''" "''x1''"] nl c
  show ?thesis by auto
qed

text \<open>
  C8 as stated fails for an origin name that contains a line feed.
\<close>

theorem line_break_breaks_round_trip:
  "parse_block (output_string [CHR ''A'', CHR 10, CHR ''B''] ''a'' ''X'' ''x'')
    \<noteq> Some ([CHR ''A'', CHR 10, CHR ''B''], ''a'', ''X'', ''x'')"
  by code_simp

subsection \<open>C9: no route, and transport failure\<close>

text \<open>
  C9: when every request is answered, the call returns the table in which a pair
  without a route holds 0, and a warning is printed for that pair; when some pair gets
  a response whose status code is not 200, the call raises and returns no table.
\<close>

theorem no_route_keeps_zero_transport_failure_aborts:
  assumes "length origin_names = length origin_addresses"
    and "length destination_names = length destination_addresses"
    and "apikey \<noteq> []"
  shows "((\<forall>i < length origin_addresses. \<forall>j < length destination_addresses. answered (get i j))
          \<longrightarrow> (\<exists>df reqs.
                 time_to_destinations clock get origin_addresses origin_names
                   destination_addresses destination_names apikey
                 = (Inr df, reqs, all_warnings get (length origin_addresses) destination_addresses)
               \<and> (\<forall>i < length origin_addresses. \<forall>j < length destination_addresses.
                     df_values df ! i ! j = expected_cell (get i j)
                   \<and> (api_status (get i j) \<noteq> ''OK'' \<longrightarrow>
                        df_values df ! i ! j = 0
                      \<and> no_route_message (destination_addresses ! j) (api_status (get i j))
                          \<in> set (all_warnings get (length origin_addresses)
                                   destination_addresses)))))
       \<and> ((\<exists>i < length origin_addresses. \<exists>j < length destination_addresses.
              status_code (get i j) \<noteq> 200)
          \<longrightarrow> (\<exists>e. fst (time_to_destinations clock get origin_addresses origin_names
                           destination_addresses destination_names apikey) = Inl e))"
proof (intro conjI impI)
  assume good: "\<forall>i < length origin_addresses. \<forall>j < length destination_addresses.
                  answered (get i j)"
  from time_to_destinations_ok[OF assms good, of clock] obtain df reqs where
    run: "time_to_destinations clock get origin_addresses origin_names
            destination_addresses destination_names apikey
          = (Inr df, reqs, all_warnings get (length origin_addresses) destination_addresses)"
    and cells: "\<forall>i < length origin_addresses. \<forall>j < length destination_addresses.
                  df_values df ! i ! j = expected_cell (get i j)"
    by blast
  have "\<forall>i < length origin_addresses. \<forall>j < length destination_addresses.
          df_values df ! i ! j = expected_cell (get i j)
        \<and> (api_status (get i j) \<noteq> ''OK'' \<longrightarrow>
             df_values df ! i ! j = 0
           \<and> no_route_message (destination_addresses ! j) (api_status (get i j))
               \<in> set (all_warnings get (length origin_addresses) destination_addresses))"
    using cells warning_listed[of _ "length origin_addresses" _ destination_addresses get]
    by (simp add: expected_cell_def)
  with run show "\<exists>df reqs.
                 time_to_destinations clock get origin_addresses origin_names
                   destination_addresses destination_names apikey
                 = (Inr df, reqs, all_warnings get (length origin_addresses) destination_addresses)
               \<and> (\<forall>i < length origin_addresses. \<forall>j < length destination_addresses.
                     df_values df ! i ! j = expected_cell (get i j)
                   \<and> (api_status (get i j) \<noteq> ''OK'' \<longrightarrow>
                        df_values df ! i ! j = 0
                      \<and> no_route_message (destination_addresses ! j) (api_status (get i j))
                          \<in> set (all_warnings get (length origin_addresses)
                                   destination_addresses)))"
    by blast
next
  assume "\<exists>i < length origin_addresses. \<exists>j < length destination_addresses.
              status_code (get i j) \<noteq> 200"
  then obtain i j where "i < length origin_addresses" and "j < length destination_addresses"
    and "\<not> answered (get i j)"
    by (auto simp: answered_def)
  then show "\<exists>e. fst (time_to_destinations clock get origin_addresses origin_names
                           destination_addresses destination_names apikey) = Inl e"
    by (rule time_to_destinations_fails)
qed

theorem no_route_keeps_zero_transport_failure_aborts_witness:
  "answered (no_route_get 1 0) \<and> api_status (no_route_get 1 0) \<noteq> ''OK''
   \<and> time_to_destinations example_clock no_route_get [''a1'', ''a2''] [''A'', ''B'']
          [''x1'', ''y1''] [''X'', ''Y''] ''key''
       = (Inr \<lparr>df_values = [[500, 900], [0, 300]], df_columns = [''X'', ''Y''],
               df_index = [''A'', ''B'']\<rparr>,
          snd (time_to_destinations example_clock no_route_get [''a1'', ''a2''] [''A'', ''B'']
                 [''x1'', ''y1''] [''X'', ''Y''] ''key''))
   \<and> no_route_message ''x1'' ''ZERO_RESULTS''
       \<in> set (all_warnings no_route_get 2 [''x1'', ''y1''])
   \<and> status_code (failing_get 1 0) \<noteq> 200
   \<and> (\<exists>e. fst (time_to_destinations example_clock failing_get [''a1'', ''a2''] [''A'', ''B'']
                  [''x1'', ''y1''] [''X'', ''Y''] ''key'') = Inl e)"
proof -
  have l: "length [''A'', ''B''] = length [''a1'', ''a2'']"
    "length [''X'', ''Y''] = length [''x1'', ''y1'']" "''key'' \<noteq> []"
    by simp_all
  have good: "\<forall>i < length [''a1'', ''a2'']. \<forall>j < length [''x1'', ''y1'']. answered (no_route_get i j)"
    by (auto simp: answered_def no_route_get_def example_get_def)
  have bad: "\<exists>i < length [''a1'', ''a2'']. \<exists>j < length [''x1'', ''y1''].
               status_code (failing_get i j) \<noteq> 200"
    by (rule exI[of _ 1], simp, rule exI[of _ 0], simp add: failing_get_def)
  have v: "time_to_destinations example_clock no_route_get [''a1'', ''a2''] [''A'', ''B'']
          [''x1'', ''y1''] [''X'', ''Y''] ''key''
       = (Inr \<lparr>df_values = [[500, 900], [0, 300]], df_columns = [''X'', ''Y''],
               df_index = [''A'', ''B'']\<rparr>,
          snd (time_to_destinations example_clock no_route_get [''a1'', ''a2''] [''A'', ''B'']
                 [''x1'', ''y1''] [''X'', ''Y''] ''key''))"
    by code_simp
  have s: "api_status (no_route_get 1 0) = ''ZERO_RESULTS''"
    by (simp add: no_route_get_def)
  from no_route_keeps_zero_transport_failure_aborts[OF l, of no_route_get example_clock] good
  obtain df :: dataframe and reqs :: "params list" where
    "time_to_destinations example_clock no_route_get [''a1'', ''a2''] [''A'', ''B'']
       [''x1'', ''y1''] [''X'', ''Y''] ''key''
     = (Inr df, reqs, all_warnings no_route_get (length [''a1'', ''a2'']) [''x1'', ''y1''])"
    and cells: "\<forall>i < length [''a1'', ''a2'']. \<forall>j < length [''x1'', ''y1''].
              df_values df ! i ! j = expected_cell (no_route_get i j)
            \<and> (api_status (no_route_get i j) \<noteq> ''OK'' \<longrightarrow>
                 df_values df ! i ! j = 0
               \<and> no_route_message ([''x1'', ''y1''] ! j) (api_status (no_route_get i j))
                   \<in> set (all_warnings no_route_get (length [''a1'', ''a2'']) [''x1'', ''y1'']))"
    by blast
  have "(1::nat) < length [''a1'', ''a2'']" and "(0::nat) < length [''x1'', ''y1'']"
    by simp_all
  moreover have "api_status (no_route_get 1 0) \<noteq> ''OK''"
    unfolding s by simp
  ultimately have "no_route_message ([''x1'', ''y1''] ! 0) (api_status (no_route_get 1 0))
          \<in> set (all_warnings no_route_get (length [''a1'', ''a2'']) [''x1'', ''y1''])"
    using cells by blast
  then have w: "no_route_message ''x1'' ''ZERO_RESULTS''
       \<in> set (all_warnings no_route_get 2 [''x1'', ''y1''])"
    unfolding s by (simp add: numeral_2_eq_2)
  from no_route_keeps_zero_transport_failure_aborts[OF l, of failing_get example_clock] bad
  have "\<exists>e. fst (time_to_destinations example_clock failing_get [''a1'', ''a2''] [''A'', ''B'']
                  [''x1'', ''y1''] [''X'', ''Y''] ''key'') = Inl e"
    by blast
  with v w good s show ?thesis by (simp add: failing_get_def)
qed

subsection \<open>C10: arguments are checked before any request\<close>

text \<open>
  C10: when the names and the addresses of the origins, or of the destinations, differ
  in number, or the credential is empty, \<^verbatim>\<open>time_to_destinations\<close> raises
  \<^verbatim>\<open>ValueError\<close> and has sent no request.
\<close>

theorem invalid_arguments_rejected_before_any_request:
  "length origin_names \<noteq> length origin_addresses
     \<or> length destination_names \<noteq> length destination_addresses
     \<or> apikey = [] \<Longrightarrow>
   \<exists>msg. time_to_destinations clock get origin_addresses origin_names destination_addresses
            destination_names apikey = (Inl (ValueError msg), [], [])"
  by (auto simp: time_to_destinations_def Let_def)

theorem invalid_arguments_rejected_before_any_request_witness:
  "length [''A''] \<noteq> length [''a1'', ''a2'']
   \<and> (\<exists>msg. time_to_destinations example_clock example_get [''a1'', ''a2''] [''A'']
               [''x1'', ''y1''] [''X'', ''Y''] ''key'' = (Inl (ValueError msg), [], []))
   \<and> (\<exists>msg. time_to_destinations example_clock example_get [''a1'', ''a2''] [''A'', ''B'']
               [''x1'', ''y1''] [''X'', ''Y''] [] = (Inl (ValueError msg), [], []))"
  using invalid_arguments_rejected_before_any_request[of "[''A'']" "[''a1'', ''a2'']"
          "[''X'', ''Y'']" "[''x1'', ''y1'']" "''key''" example_clock example_get]
        invalid_arguments_rejected_before_any_request[of "[''A'', ''B'']" "[''a1'', ''a2'']"
          "[''X'', ''Y'']" "[''x1'', ''y1'']" "[]" example_clock example_get]
  by simp

end
